theory Spec2Isabelle
  imports Main "HOL-Library.Multiset"
begin

section \<open>Shared data model of \<open>lib/Sema/TypeChecker.cpp\<close>\<close>

text \<open>
  Declarations are heap objects in the source and are handled through pointers.
  A pointer is a \<open>DeclRef\<close>; the objects live in stores of the \<open>ASTContext\<close>.
  A \<open>SourceLoc\<close> is either a position or the invalid location
  (\<open>SourceLoc()\<close>), for which \<open>isValid\<close> is false.
\<close>

type_synonym Identifier = string
type_synonym DeclRef = nat
type_synonym SourceLoc = "nat option"

definition isValid :: "SourceLoc \<Rightarrow> bool" where
  "isValid loc = (loc \<noteq> None)"

text \<open>
  Modelled from the spec: the type hierarchy of \<open>swift/AST/Types.h\<close> is not part of
  the sources. The binder distinguishes nominal types, unbound generic types and
  everything else; a type alias is sugar for its underlying type; the error type is
  the sentinel stored when resolution fails.
\<close>

datatype Type =
    ErrorType
  | NominalType DeclRef
  | UnboundGenericType DeclRef
  | BoundGenericType DeclRef
  | NameAliasType Type
  | OtherType nat

text \<open>
  Modelled from the spec: the known-protocol table \<open>swift/AST/KnownProtocols.def\<close> is
  not part of the sources. The kinds named in \<open>TypeChecker.cpp\<close> are constructors of
  their own; \<open>OtherKnownProtocol\<close> stands for the remaining entries of the table.
\<close>

datatype KnownProtocolKind =
    ArrayLiteralConvertible
  | DictionaryLiteralConvertible
  | NilLiteralConvertible
  | IntegerLiteralConvertible
  | FloatLiteralConvertible
  | BooleanLiteralConvertible
  | CharacterLiteralConvertible
  | ExtendedGraphemeClusterLiteralConvertible
  | StringLiteralConvertible
  | StringInterpolationConvertible
  | OtherKnownProtocol Identifier

fun getProtocolName :: "KnownProtocolKind \<Rightarrow> Identifier" where
  "getProtocolName ArrayLiteralConvertible = ''ArrayLiteralConvertible''"
| "getProtocolName DictionaryLiteralConvertible = ''DictionaryLiteralConvertible''"
| "getProtocolName NilLiteralConvertible = ''NilLiteralConvertible''"
| "getProtocolName IntegerLiteralConvertible = ''IntegerLiteralConvertible''"
| "getProtocolName FloatLiteralConvertible = ''FloatLiteralConvertible''"
| "getProtocolName BooleanLiteralConvertible = ''BooleanLiteralConvertible''"
| "getProtocolName CharacterLiteralConvertible = ''CharacterLiteralConvertible''"
| "getProtocolName ExtendedGraphemeClusterLiteralConvertible =
     ''ExtendedGraphemeClusterLiteralConvertible''"
| "getProtocolName StringLiteralConvertible = ''StringLiteralConvertible''"
| "getProtocolName StringInterpolationConvertible = ''StringInterpolationConvertible''"
| "getProtocolName (OtherKnownProtocol n) = n"

text \<open>
  The diagnostics emitted in this file, one constructor per \<open>diag::\<close> identifier, with
  the arguments the call site passes. \<open>TC.diagnose\<close> appends to the diagnostic stream.
\<close>

datatype Diagnostic =
    missing_protocol SourceLoc Identifier
  | extension_metatype SourceLoc
  | extension_generic_params_for_non_generic SourceLoc Identifier
  | extension_generic_params_for_non_generic_type SourceLoc Type
  | extended_type_here DeclRef Type
  | extension_generic_wrong_number_of_parameters SourceLoc Type bool nat nat
  | non_nominal_extension DeclRef bool Type
  | other_diagnostic nat

datatype GenericParamList =
  GenericParamList (genericParamNames: "Identifier list")
                   (getOuterParameters: "GenericParamList option")

definition sizeGP :: "GenericParamList \<Rightarrow> nat" where
  "sizeGP gp = length (genericParamNames gp)"

definition setOuterParameters :: "GenericParamList option \<Rightarrow> GenericParamList \<Rightarrow> GenericParamList" where
  "setOuterParameters outer gp = GenericParamList (genericParamNames gp) outer"

record ProtocolDecl =
  protoHasType :: bool
  protoIsInvalid :: bool

record NominalTypeDecl =
  getGenericParams :: "GenericParamList option"
  getDeclaredType :: Type
  getExtensions :: "DeclRef list"

datatype Decl =
    AbstractFunctionDecl DeclRef
  | NominalDecl DeclRef
  | OtherDecl DeclRef

record ASTContext =
  knownProtocols :: "KnownProtocolKind \<Rightarrow> DeclRef option"
  protocolDecls :: "DeclRef \<Rightarrow> ProtocolDecl"
  nominalDecls :: "DeclRef \<Rightarrow> NominalTypeDecl"
  ExternalDefinitions :: "Decl list"
  LastCheckedExternalDefinition :: nat

record TypeChecker =
  Context :: ASTContext
  Diags :: "Diagnostic list"
  definedFunctions :: "DeclRef list"
  implicitlyDefinedFunctions :: "DeclRef list"
  ValidatedTypes :: "DeclRef list"

definition diagnose :: "Diagnostic \<Rightarrow> TypeChecker \<Rightarrow> TypeChecker" where
  "diagnose d tc = tc\<lparr>Diags := Diags tc @ [d]\<rparr>"

section \<open>Capability lookup: \<open>getProtocol\<close> and \<open>getLiteralProtocol\<close>\<close>

text \<open>
  \<open>TypeChecker::getProtocol\<close>, lines 69-83. \<open>Context.getProtocol(kind)\<close> is the read of
  the registry; \<open>validateDecl\<close> is the declaration-checking collaborator, a parameter.
  The result is the protocol pointer, \<open>None\<close> for \<open>nullptr\<close>.
\<close>

definition getProtocol ::
  "(DeclRef \<Rightarrow> TypeChecker \<Rightarrow> TypeChecker) \<Rightarrow> SourceLoc \<Rightarrow> KnownProtocolKind \<Rightarrow>
     TypeChecker \<Rightarrow> DeclRef option \<times> TypeChecker" where
  "getProtocol validateDecl loc kind tc =
     (let protocol = knownProtocols (Context tc) kind;
          tc1 = (if protocol = None \<and> isValid loc
                 then diagnose (missing_protocol loc (getProtocolName kind)) tc
                 else tc)
      in case protocol of
           None \<Rightarrow> (None, tc1)
         | Some p \<Rightarrow>
             if \<not> protoHasType (protocolDecls (Context tc1) p) then
               (let tc2 = validateDecl p tc1
                in if protoIsInvalid (protocolDecls (Context tc2) p)
                   then (None, tc2)
                   else (Some p, tc2))
             else (Some p, tc1))"

text \<open>
  The expression kinds \<open>getLiteralProtocol\<close> tells apart. \<open>StringLiteralExpr\<close> carries
  the answer of \<open>isSingleExtendedGraphemeCluster()\<close>; \<open>OtherExpr\<close> is any expression
  that is neither a collection expression nor a \<open>LiteralExpr\<close>.
\<close>

datatype MagicIdentifierKind = File | Line | Column | Function

datatype ExprKind =
    ArrayExpr
  | DictionaryExpr
  | NilLiteralExpr
  | IntegerLiteralExpr
  | FloatLiteralExpr
  | BooleanLiteralExpr
  | CharacterLiteralExpr
  | StringLiteralExpr bool
  | InterpolatedStringLiteralExpr
  | MagicIdentifierLiteralExpr MagicIdentifierKind
  | OtherExpr nat

record Expr =
  exprKind :: ExprKind
  getLoc :: SourceLoc

fun isa_LiteralExpr :: "ExprKind \<Rightarrow> bool" where
  "isa_LiteralExpr ArrayExpr = False"
| "isa_LiteralExpr DictionaryExpr = False"
| "isa_LiteralExpr (OtherExpr n) = False"
| "isa_LiteralExpr k = True"

text \<open>\<open>TypeChecker::getLiteralProtocol\<close>, lines 85-146, in the order of its tests.\<close>

definition getLiteralProtocol ::
  "(DeclRef \<Rightarrow> TypeChecker \<Rightarrow> TypeChecker) \<Rightarrow> Expr \<Rightarrow> TypeChecker \<Rightarrow>
     DeclRef option \<times> TypeChecker" where
  "getLiteralProtocol validateDecl expr tc =
     (if exprKind expr = ArrayExpr then
        getProtocol validateDecl (getLoc expr) ArrayLiteralConvertible tc
      else if exprKind expr = DictionaryExpr then
        getProtocol validateDecl (getLoc expr) DictionaryLiteralConvertible tc
      else if \<not> isa_LiteralExpr (exprKind expr) then (None, tc)
      else if exprKind expr = NilLiteralExpr then
        getProtocol validateDecl (getLoc expr) NilLiteralConvertible tc
      else if exprKind expr = IntegerLiteralExpr then
        getProtocol validateDecl (getLoc expr) IntegerLiteralConvertible tc
      else if exprKind expr = FloatLiteralExpr then
        getProtocol validateDecl (getLoc expr) FloatLiteralConvertible tc
      else if exprKind expr = BooleanLiteralExpr then
        getProtocol validateDecl (getLoc expr) BooleanLiteralConvertible tc
      else if exprKind expr = CharacterLiteralExpr then
        getProtocol validateDecl (getLoc expr) CharacterLiteralConvertible tc
      else case exprKind expr of
          StringLiteralExpr isSingleExtendedGraphemeCluster \<Rightarrow>
            if isSingleExtendedGraphemeCluster
            then getProtocol validateDecl (getLoc expr)
                   ExtendedGraphemeClusterLiteralConvertible tc
            else getProtocol validateDecl (getLoc expr) StringLiteralConvertible tc
        | InterpolatedStringLiteralExpr \<Rightarrow>
            getProtocol validateDecl (getLoc expr) StringInterpolationConvertible tc
        | MagicIdentifierLiteralExpr k \<Rightarrow>
            (case k of
               File \<Rightarrow> getProtocol validateDecl (getLoc expr) StringLiteralConvertible tc
             | Function \<Rightarrow> getProtocol validateDecl (getLoc expr) StringLiteralConvertible tc
             | Line \<Rightarrow> getProtocol validateDecl (getLoc expr) IntegerLiteralConvertible tc
             | Column \<Rightarrow> getProtocol validateDecl (getLoc expr) IntegerLiteralConvertible tc)
        | _ \<Rightarrow> (None, tc))"

text \<open>
  The table of section 4.4 of the specification, row by row, as a function from the
  expression kind to the required capability; the last row is "none".
\<close>

fun specLiteralTable :: "ExprKind \<Rightarrow> KnownProtocolKind option" where
  "specLiteralTable NilLiteralExpr = Some NilLiteralConvertible"
| "specLiteralTable IntegerLiteralExpr = Some IntegerLiteralConvertible"
| "specLiteralTable FloatLiteralExpr = Some FloatLiteralConvertible"
| "specLiteralTable BooleanLiteralExpr = Some BooleanLiteralConvertible"
| "specLiteralTable (StringLiteralExpr True) = Some ExtendedGraphemeClusterLiteralConvertible"
| "specLiteralTable (StringLiteralExpr False) = Some StringLiteralConvertible"
| "specLiteralTable InterpolatedStringLiteralExpr = Some StringInterpolationConvertible"
| "specLiteralTable ArrayExpr = Some ArrayLiteralConvertible"
| "specLiteralTable DictionaryExpr = Some DictionaryLiteralConvertible"
| "specLiteralTable (MagicIdentifierLiteralExpr File) = Some StringLiteralConvertible"
| "specLiteralTable (MagicIdentifierLiteralExpr Function) = Some StringLiteralConvertible"
| "specLiteralTable (MagicIdentifierLiteralExpr Line) = Some IntegerLiteralConvertible"
| "specLiteralTable (MagicIdentifierLiteralExpr Column) = Some IntegerLiteralConvertible"
| "specLiteralTable CharacterLiteralExpr = None"
| "specLiteralTable (OtherExpr n) = None"

text \<open>The same table with the one row the source has beyond it: the character literal.\<close>

definition literalTable :: "ExprKind \<Rightarrow> KnownProtocolKind option" where
  "literalTable k =
     (if k = CharacterLiteralExpr then Some CharacterLiteralConvertible
      else specLiteralTable k)"

text \<open>Looking a table up through the registry, as every branch of the source does.\<close>

definition lookupVia ::
  "(ExprKind \<Rightarrow> KnownProtocolKind option) \<Rightarrow> (DeclRef \<Rightarrow> TypeChecker \<Rightarrow> TypeChecker) \<Rightarrow>
     Expr \<Rightarrow> TypeChecker \<Rightarrow> DeclRef option \<times> TypeChecker" where
  "lookupVia table validateDecl expr tc =
     (case table (exprKind expr) of
        None \<Rightarrow> (None, tc)
      | Some kind \<Rightarrow> getProtocol validateDecl (getLoc expr) kind tc)"

section \<open>The conformance gate: \<open>mayConformToKnownProtocol\<close>\<close>

text \<open>
  Type representations as far as the gate reads them. An identifier type
  representation has at least one component (\<open>IdentTypeRepr::create\<close> refuses an
  empty list), so it is a first component and the rest; \<open>getComponentRange().back()\<close>
  is the last of them. A component is a plain name or a name with generic arguments.
  The \<open>TypeRepr\<close> of a \<open>TypeLoc\<close> may be null.
\<close>

datatype ComponentIdentTypeRepr =
    SimpleIdentTypeRepr SourceLoc Identifier
  | GenericIdentTypeRepr SourceLoc Identifier nat

datatype TypeRepr =
    IdentTypeRepr ComponentIdentTypeRepr "ComponentIdentTypeRepr list"
  | OtherTypeRepr nat

record TypeLoc =
  getTypeRepr :: "TypeRepr option"

definition componentsBack :: "ComponentIdentTypeRepr \<Rightarrow> ComponentIdentTypeRepr list \<Rightarrow> ComponentIdentTypeRepr" where
  "componentsBack c cs = last (c # cs)"

text \<open>
  \<open>mayConformToKnownProtocol\<close>, lines 306-329, over \<open>D->getInherited()\<close>. The
  \<open>StringSwitch\<close> has one \<open>Case\<close> per \<open>PROTOCOL(Name)\<close> entry of
  \<open>KnownProtocols.def\<close>, which is not part of the sources: the names are the
  parameter \<open>known\<close>. \<open>Case\<close> compares whole strings.
\<close>

fun mayConformToKnownProtocol :: "Identifier list \<Rightarrow> TypeLoc list \<Rightarrow> bool" where
  "mayConformToKnownProtocol known [] = False"
| "mayConformToKnownProtocol known (inherited # rest) =
     (case getTypeRepr inherited of
        Some (IdentTypeRepr c cs) \<Rightarrow>
          (case componentsBack c cs of
             SimpleIdentTypeRepr loc ident \<Rightarrow>
               (let matchesKnownProtocol = (ident \<in> set known)
                in if matchesKnownProtocol then True
                   else mayConformToKnownProtocol known rest)
           | GenericIdentTypeRepr loc ident n \<Rightarrow> mayConformToKnownProtocol known rest)
      | _ \<Rightarrow> mayConformToKnownProtocol known rest)"

text \<open>
  The words of the specification: the text of an entry's final name component when
  that component is a simple identifier, and nothing otherwise.
\<close>

definition finalSimpleIdentifier :: "TypeLoc \<Rightarrow> Identifier option" where
  "finalSimpleIdentifier entry =
     (case getTypeRepr entry of
        Some (IdentTypeRepr c cs) \<Rightarrow>
          (case last (c # cs) of
             SimpleIdentTypeRepr loc ident \<Rightarrow> Some ident
           | GenericIdentTypeRepr loc ident n \<Rightarrow> None)
      | _ \<Rightarrow> None)"

definition namesKnownProtocol :: "Identifier list \<Rightarrow> TypeLoc \<Rightarrow> bool" where
  "namesKnownProtocol known entry =
     (case finalSimpleIdentifier entry of
        Some ident \<Rightarrow> ident \<in> set known
      | None \<Rightarrow> False)"

section \<open>The sealing walker: \<open>TryAddFinal\<close>\<close>

text \<open>
  Value declarations as far as the walker reads them. The overridden declaration and
  the storage of an accessor are pointers to other declarations; the chains are
  finite, so they are subterms. \<open>accessibility\<close> is \<open>None\<close> while
  \<open>hasAccessibility()\<close> is false; \<open>dynamicAttr\<close> holds \<open>isImplicit()\<close> of the
  \<open>DynamicAttr\<close> when there is one; \<open>inClassContext\<close> is \<open>isInClass(getDeclContext())\<close>.
  A \<open>FuncDecl\<close> that is an accessor carries its kind and its storage declaration.
  \<open>StorageDecl\<close> is an \<open>AbstractStorageDecl\<close> (variable or subscript).
\<close>

datatype Accessibility = Private | Internal | Public

datatype AccessorKind = IsGetter | IsSetter | IsObserver

datatype ValueDeclKind =
    ConstructorDecl
  | DestructorDecl
  | FuncDecl "(AccessorKind \<times> ValueDecl) option"
  | StorageDecl
  | ClassDecl bool
  | OtherValueDecl
and ValueDecl = ValueDecl
    (declKind: ValueDeclKind)
    (isFinal: bool)
    (isInvalid: bool)
    (accessibility: "Accessibility option")
    (dynamicAttr: "bool option")
    (getOverriddenDecl: "ValueDecl option")
    (isOverridden: bool)
    (inClassContext: bool)












section \<open>The extension binder: \<open>bindExtensionDecl\<close>\<close>

text \<open>
  An extension declaration as far as the binder reads and writes it. \<open>extRef\<close> is
  the address of the declaration (what \<open>addExtension\<close> stores); \<open>getExtendedType\<close>
  is \<open>None\<close> while the type is null; each component of the dotted path has a name,
  its location and an optional generic parameter list.
\<close>

record RefComponent =
  NameLoc :: SourceLoc
  Name :: Identifier
  GenericParams :: "GenericParamList option"

record ExtensionDecl =
  extRef :: DeclRef
  getExtendedType :: "Type option"
  extInvalid :: bool
  getRefComponents :: "RefComponent list"
  getDeclContext :: nat

definition Id_Type :: Identifier where
  "Id_Type = ''Type''"

definition setInvalid :: "ExtensionDecl \<Rightarrow> ExtensionDecl" where
  "setInvalid ED = ED\<lparr>extInvalid := True\<rparr>"

definition setExtendedType :: "Type \<Rightarrow> ExtensionDecl \<Rightarrow> ExtensionDecl" where
  "setExtendedType ty ED = ED\<lparr>getExtendedType := Some ty\<rparr>"

definition setRefGenericParams ::
  "nat \<Rightarrow> GenericParamList option \<Rightarrow> ExtensionDecl \<Rightarrow> ExtensionDecl" where
  "setRefGenericParams i gp ED =
     ED\<lparr>getRefComponents :=
          (getRefComponents ED)[i := (getRefComponents ED ! i)\<lparr>GenericParams := gp\<rparr>]\<rparr>"

definition addExtension :: "DeclRef \<Rightarrow> DeclRef \<Rightarrow> TypeChecker \<Rightarrow> TypeChecker" where
  "addExtension nominal ext tc =
     tc\<lparr>Context := (Context tc)\<lparr>nominalDecls :=
          (nominalDecls (Context tc))
            (nominal := (nominalDecls (Context tc) nominal)
               \<lparr>getExtensions := getExtensions (nominalDecls (Context tc) nominal) @ [ext]\<rparr>)\<rparr>\<rparr>"

text \<open>
  Modelled from the spec: the queries on types of \<open>swift/AST/Types.h\<close>, which is not
  part of the sources. \<open>is<T>\<close> looks through sugar; \<open>getAnyNominal\<close> is the
  declaration of a nominal, unbound generic or bound generic type.
\<close>

fun getDesugaredType :: "Type \<Rightarrow> Type" where
  "getDesugaredType (NameAliasType t) = getDesugaredType t"
| "getDesugaredType t = t"

definition is_NominalType :: "Type \<Rightarrow> bool" where
  "is_NominalType ty = (case getDesugaredType ty of NominalType d \<Rightarrow> True | _ \<Rightarrow> False)"

definition is_UnboundGenericType :: "Type \<Rightarrow> bool" where
  "is_UnboundGenericType ty =
     (case getDesugaredType ty of UnboundGenericType d \<Rightarrow> True | _ \<Rightarrow> False)"

definition getAnyNominal :: "Type \<Rightarrow> DeclRef option" where
  "getAnyNominal ty =
     (case getDesugaredType ty of
        NominalType d \<Rightarrow> Some d
      | UnboundGenericType d \<Rightarrow> Some d
      | BoundGenericType d \<Rightarrow> Some d
      | _ \<Rightarrow> None)"

text \<open>
  The type-validation collaborator. \<open>TC.validateType(typeLoc, dc, TR_AllowUnboundGenerics)\<close>
  returns true on error; on success it has bound every component of the
  representation to a type, a declaration or a module and has set the type of the
  \<open>TypeLoc\<close>. It is a parameter: a function from the components, the declaration
  context and the state to its outcome and the state it leaves.
\<close>

datatype BoundEntity =
    Unbound
  | BoundType Type
  | BoundDecl Decl
  | BoundModule nat

datatype Validated =
    ValidateError
  | Validated "nat \<Rightarrow> BoundEntity" Type

type_synonym validateType =
  "ComponentIdentTypeRepr list \<Rightarrow> nat \<Rightarrow> TypeChecker \<Rightarrow> Validated \<times> TypeChecker"

text \<open>
  The first loop, lines 190-202. It returns \<open>Inl\<close> of the location of the component
  at which the function diagnoses the metatype and returns, or \<open>Inr\<close> of the
  components it built.
\<close>

fun synthesizeComponents ::
  "RefComponent list \<Rightarrow> ComponentIdentTypeRepr list \<Rightarrow> SourceLoc + ComponentIdentTypeRepr list" where
  "synthesizeComponents [] components = Inr components"
| "synthesizeComponents (ref # refs) components =
     (if Name ref = Id_Type \<and> components \<noteq> [] then Inl (NameLoc ref)
      else synthesizeComponents refs (components @ [SimpleIdentTypeRepr (NameLoc ref) (Name ref)]))"

text \<open>Lines 217-225: the nominal type declaration a bound component refers to.\<close>

definition typeDeclOf :: "BoundEntity \<Rightarrow> DeclRef option" where
  "typeDeclOf b =
     (case b of
        BoundType type \<Rightarrow>
          (case type of
             UnboundGenericType d \<Rightarrow> Some d
           | NominalType d \<Rightarrow> Some d
           | _ \<Rightarrow> None)
      | BoundDecl decl \<Rightarrow> (case decl of NominalDecl d \<Rightarrow> Some d | _ \<Rightarrow> None)
      | _ \<Rightarrow> None)"

text \<open>
  The body of the second loop, lines 215-286, for component \<open>i\<close>: it either returns
  from the function (\<open>Return\<close>) or goes on to the next component with the running
  outer generic parameter list (\<open>Continue\<close>).
\<close>

datatype Step =
    Return ExtensionDecl TypeChecker
  | Continue "GenericParamList option" ExtensionDecl TypeChecker

definition checkComponent ::
  "(nat \<Rightarrow> BoundEntity) \<Rightarrow> nat \<Rightarrow> GenericParamList option \<Rightarrow> ExtensionDecl \<Rightarrow> TypeChecker \<Rightarrow> Step" where
  "checkComponent bound i outerGenericParams ED tc =
     (let ref = getRefComponents ED ! i
      in case typeDeclOf (bound i) of
           None \<Rightarrow>
             if GenericParams ref \<noteq> None
             then Continue outerGenericParams (setRefGenericParams i None ED)
                    (diagnose (extension_generic_params_for_non_generic (NameLoc ref) (Name ref)) tc)
             else Continue outerGenericParams ED tc
         | Some typeDecl \<Rightarrow>
             (case (getGenericParams (nominalDecls (Context tc) typeDecl), GenericParams ref) of
                (Some expected, None) \<Rightarrow> Continue outerGenericParams ED tc
              | (None, Some have) \<Rightarrow>
                  Continue outerGenericParams (setRefGenericParams i None ED)
                    (diagnose (extended_type_here typeDecl
                                 (getDeclaredType (nominalDecls (Context tc) typeDecl)))
                       (diagnose (extension_generic_params_for_non_generic_type (NameLoc ref)
                                    (getDeclaredType (nominalDecls (Context tc) typeDecl))) tc))
              | (None, None) \<Rightarrow> Continue outerGenericParams ED tc
              | (Some expected, Some have) \<Rightarrow>
                  if sizeGP have \<noteq> sizeGP expected then
                    (let numHave = sizeGP have; numExpected = sizeGP expected
                     in Return (setExtendedType ErrorType (setInvalid ED))
                          (diagnose (extension_generic_wrong_number_of_parameters (NameLoc ref)
                                       (getDeclaredType (nominalDecls (Context tc) typeDecl))
                                       (numHave > numExpected) numHave numExpected) tc))
                  else
                    Continue (Some (setOuterParameters outerGenericParams have))
                      (setRefGenericParams i
                         (Some (setOuterParameters outerGenericParams have)) ED)
                      tc))"

text \<open>The second loop, lines 214-287, over the indices \<open>0 .. n-1\<close> in order.\<close>

fun checkComponents ::
  "(nat \<Rightarrow> BoundEntity) \<Rightarrow> nat list \<Rightarrow> GenericParamList option \<Rightarrow> ExtensionDecl \<Rightarrow> TypeChecker \<Rightarrow> Step" where
  "checkComponents bound [] outerGenericParams ED tc = Continue outerGenericParams ED tc"
| "checkComponents bound (i # rest) outerGenericParams ED tc =
     (case checkComponent bound i outerGenericParams ED tc of
        Return ED' tc' \<Rightarrow> Return ED' tc'
      | Continue outer' ED' tc' \<Rightarrow> checkComponents bound rest outer' ED' tc')"

text \<open>
  Lines 289-300: after the walk, either the resolved type is refused as not nominal,
  or it is stored and the extension is added to the nominal type's extensions.
\<close>

definition finishBinding ::
  "Type \<Rightarrow> ExtensionDecl \<Rightarrow> TypeChecker \<Rightarrow> ExtensionDecl \<times> TypeChecker" where
  "finishBinding extendedTy ED2 tc2 =
     (if \<not> is_NominalType extendedTy \<and> \<not> is_UnboundGenericType extendedTy
      then (setExtendedType ErrorType (setInvalid ED2),
            diagnose (non_nominal_extension (extRef ED2) False extendedTy) tc2)
      else
        (let ED3 = setExtendedType extendedTy ED2
         in case getAnyNominal extendedTy of
              Some nominal \<Rightarrow> (ED3, addExtension nominal (extRef ED3) tc2)
            | None \<Rightarrow> (ED3, tc2)))"

text \<open>
  \<open>bindExtensionDecl\<close>, lines 183-301. The result is the extension declaration and
  the state after the call.
\<close>

definition bindExtensionDecl ::
  "validateType \<Rightarrow> ExtensionDecl \<Rightarrow> TypeChecker \<Rightarrow> ExtensionDecl \<times> TypeChecker" where
  "bindExtensionDecl validateType ED tc =
     (if getExtendedType ED \<noteq> None then (ED, tc)
      else
        (let dc = getDeclContext ED
         in case synthesizeComponents (getRefComponents ED) [] of
              Inl loc \<Rightarrow>
                (setExtendedType ErrorType (setInvalid ED), diagnose (extension_metatype loc) tc)
            | Inr components \<Rightarrow>
                (case validateType components dc tc of
                   (ValidateError, tc1) \<Rightarrow> (setExtendedType ErrorType (setInvalid ED), tc1)
                 | (Validated bound extendedTy, tc1) \<Rightarrow>
                     (case checkComponents bound [0..<length components] None ED tc1 of
                        Return ED2 tc2 \<Rightarrow> (ED2, tc2)
                      | Continue outerGenericParams ED2 tc2 \<Rightarrow>
                          finishBinding extendedTy ED2 tc2))))"

text \<open>
  The words of the claims about the binder: a component and the nominal type it
  denotes both carry generic parameter lists, of different sizes; and the first
  component after the first one that is named \<open>Type\<close>.
\<close>

definition arityMismatch ::
  "(nat \<Rightarrow> BoundEntity) \<Rightarrow> TypeChecker \<Rightarrow> ExtensionDecl \<Rightarrow> nat \<Rightarrow> bool" where
  "arityMismatch bound tc ED i =
     (case typeDeclOf (bound i) of
        None \<Rightarrow> False
      | Some typeDecl \<Rightarrow>
          (case (getGenericParams (nominalDecls (Context tc) typeDecl),
                 GenericParams (getRefComponents ED ! i)) of
             (Some expected, Some have) \<Rightarrow> sizeGP have \<noteq> sizeGP expected
           | _ \<Rightarrow> False))"

definition firstMetatypeRef :: "RefComponent list \<Rightarrow> RefComponent option" where
  "firstMetatypeRef refs = find (\<lambda>ref. Name ref = Id_Type) (tl refs)"

definition invalidated :: "ExtensionDecl \<Rightarrow> ExtensionDecl" where
  "invalidated ED = ED\<lparr>getExtendedType := Some ErrorType, extInvalid := True\<rparr>"

text \<open>
  Further notions of the claims about the binder: the component the first loop
  builds for a path component; the first component with an arity mismatch and the
  diagnostic the source has for it; an extension that differs from another at most
  in the generic parameter lists of the listed components; the two outcomes of a
  binding (failed: error type and invalid; succeeded: the resolved nominal or
  unbound generic type stored and the extension appended to that type's extensions);
  and the conditions under which the source takes a failure path.
\<close>

definition mkComponent :: "RefComponent \<Rightarrow> ComponentIdentTypeRepr" where
  "mkComponent ref = SimpleIdentTypeRepr (NameLoc ref) (Name ref)"

definition firstArityMismatch ::
  "(nat \<Rightarrow> BoundEntity) \<Rightarrow> TypeChecker \<Rightarrow> ExtensionDecl \<Rightarrow> nat option" where
  "firstArityMismatch bound tc ED =
     find (arityMismatch bound tc ED) [0..<length (getRefComponents ED)]"

definition arityDiagnostic ::
  "(nat \<Rightarrow> BoundEntity) \<Rightarrow> TypeChecker \<Rightarrow> ExtensionDecl \<Rightarrow> nat \<Rightarrow> Diagnostic option" where
  "arityDiagnostic bound tc ED i =
     (case typeDeclOf (bound i) of
        None \<Rightarrow> None
      | Some typeDecl \<Rightarrow>
          (case (getGenericParams (nominalDecls (Context tc) typeDecl),
                 GenericParams (getRefComponents ED ! i)) of
             (Some expected, Some have) \<Rightarrow>
               Some (extension_generic_wrong_number_of_parameters
                       (NameLoc (getRefComponents ED ! i))
                       (getDeclaredType (nominalDecls (Context tc) typeDecl))
                       (sizeGP have > sizeGP expected) (sizeGP have) (sizeGP expected))
           | _ \<Rightarrow> None))"

definition sameExtension :: "nat set \<Rightarrow> ExtensionDecl \<Rightarrow> ExtensionDecl \<Rightarrow> bool" where
  "sameExtension S ED ED' =
     (extRef ED' = extRef ED \<and> getExtendedType ED' = getExtendedType ED \<and>
      extInvalid ED' = extInvalid ED \<and> getDeclContext ED' = getDeclContext ED \<and>
      length (getRefComponents ED') = length (getRefComponents ED) \<and>
      (\<forall>j. j \<notin> S \<longrightarrow> getRefComponents ED' ! j = getRefComponents ED ! j))"

definition bindFailed :: "ExtensionDecl \<Rightarrow> bool" where
  "bindFailed ED = (getExtendedType ED = Some ErrorType \<and> extInvalid ED)"

definition registered :: "DeclRef \<Rightarrow> DeclRef \<Rightarrow> TypeChecker \<Rightarrow> TypeChecker \<Rightarrow> bool" where
  "registered nominal ext tc1 tc' =
     (getExtensions (nominalDecls (Context tc') nominal) =
        getExtensions (nominalDecls (Context tc1) nominal) @ [ext] \<and>
      (\<forall>d. d \<noteq> nominal \<longrightarrow> nominalDecls (Context tc') d = nominalDecls (Context tc1) d))"

definition bindSucceeded ::
  "validateType \<Rightarrow> ExtensionDecl \<Rightarrow> TypeChecker \<Rightarrow> ExtensionDecl \<Rightarrow> TypeChecker \<Rightarrow> bool" where
  "bindSucceeded validateType ED tc ED' tc' =
     (\<exists>bound ty tc1 nominal.
        validateType (map mkComponent (getRefComponents ED)) (getDeclContext ED) tc
          = (Validated bound ty, tc1) \<and>
        getExtendedType ED' = Some ty \<and> (is_NominalType ty \<or> is_UnboundGenericType ty) \<and>
        getAnyNominal ty = Some nominal \<and> extInvalid ED' = extInvalid ED \<and>
        registered nominal (extRef ED) tc1 tc')"

definition bindingFails :: "validateType \<Rightarrow> ExtensionDecl \<Rightarrow> TypeChecker \<Rightarrow> bool" where
  "bindingFails validateType ED tc =
     (firstMetatypeRef (getRefComponents ED) \<noteq> None \<or>
      (case validateType (map mkComponent (getRefComponents ED)) (getDeclContext ED) tc of
         (ValidateError, tc1) \<Rightarrow> True
       | (Validated bound ty, tc1) \<Rightarrow>
           firstArityMismatch bound tc1 ED \<noteq> None \<or>
           (\<not> is_NominalType ty \<and> \<not> is_UnboundGenericType ty)))"

section \<open>The worklist scheduler: \<open>typeCheckFunctionsAndExternalDecls\<close>\<close>

text \<open>
  The collaborators the scheduler calls: checking a function body, handling an
  external nominal declaration (\<open>handleExternalDecl\<close>, lines 55-67, which only calls
  the synthesisers of implicit members), computing captures and checking a
  declaration (with its \<open>isFirstPass\<close> flag). Each is an arbitrary function of its
  argument and the state of the type checker; it may append to any of the queues.
\<close>

record Sema =
  typeCheckAbstractFunctionBody :: "DeclRef \<Rightarrow> TypeChecker \<Rightarrow> TypeChecker"
  handleExternalDecl :: "DeclRef \<Rightarrow> TypeChecker \<Rightarrow> TypeChecker"
  computeCaptures :: "DeclRef \<Rightarrow> TypeChecker \<Rightarrow> TypeChecker"
  typeCheckDecl :: "DeclRef \<Rightarrow> bool \<Rightarrow> TypeChecker \<Rightarrow> TypeChecker"

text \<open>
  A record of the run, kept beside the state and out of the collaborators' reach:
  every collaborator call, in order, with the items by which the call made the four
  collections longer. The program has no such record; the claims about order and
  about "every item, exactly once" are stated on it, and \<open>replay\<close> below ties it to
  the state: the state of a run is the recorded calls applied in the recorded
  order.
\<close>

datatype Call =
    CheckExternalBody DeclRef
  | HandleExternalDecl DeclRef
  | CheckBody DeclRef
  | ComputeCaptures DeclRef
  | FirstPass DeclRef

record Growth =
  grownExternal :: "Decl list"
  grownFunctions :: "DeclRef list"
  grownImplicit :: "DeclRef list"
  grownValidated :: "DeclRef list"

definition growth :: "TypeChecker \<Rightarrow> TypeChecker \<Rightarrow> Growth" where
  "growth tc tc' =
     \<lparr>grownExternal = drop (length (ExternalDefinitions (Context tc)))
                         (ExternalDefinitions (Context tc')),
      grownFunctions = drop (length (definedFunctions tc)) (definedFunctions tc'),
      grownImplicit = drop (length (implicitlyDefinedFunctions tc))
                         (implicitlyDefinedFunctions tc'),
      grownValidated = drop (length (ValidatedTypes tc)) (ValidatedTypes tc')\<rparr>"

type_synonym Trace = "(Call \<times> Growth) list"

definition invoke ::
  "Call \<Rightarrow> (TypeChecker \<Rightarrow> TypeChecker) \<Rightarrow> TypeChecker \<times> Trace \<Rightarrow> TypeChecker \<times> Trace" where
  "invoke c f st = (f (fst st), snd st @ [(c, growth (fst st) (f (fst st)))])"

text \<open>
  Ways not to return: \<open>llvm_unreachable\<close> at line 350, and indexing a vector past
  its end (undefined in the source, a fatal value here). The cursors are
  \<open>unsigned\<close>; the sequences are far shorter than \<open>2^32\<close>, so they are natural
  numbers.
\<close>

datatype Fatal = Unreachable | OutOfBounds

text \<open>
  Lines 336-351. The bound \<open>n\<close> is the size when the loop starts; the loop runs
  while the cursor differs from \<open>n\<close>. A cursor beyond \<open>n\<close> would run off the end
  of the vector.
\<close>

function drainExternalDefinitions ::
  "Sema \<Rightarrow> nat \<Rightarrow> nat \<Rightarrow> TypeChecker \<times> Trace \<Rightarrow> Fatal + nat \<times> TypeChecker \<times> Trace" where
  "drainExternalDefinitions S n currentExternalDef st =
     (if currentExternalDef = n then Inr (currentExternalDef, st)
      else if n < currentExternalDef \<or>
              length (ExternalDefinitions (Context (fst st))) \<le> currentExternalDef
      then Inl OutOfBounds
      else case ExternalDefinitions (Context (fst st)) ! currentExternalDef of
             AbstractFunctionDecl AFD \<Rightarrow>
               drainExternalDefinitions S n (currentExternalDef + 1)
                 (invoke (CheckExternalBody AFD) (typeCheckAbstractFunctionBody S AFD) st)
           | NominalDecl decl \<Rightarrow>
               drainExternalDefinitions S n (currentExternalDef + 1)
                 (invoke (HandleExternalDecl decl) (handleExternalDecl S decl) st)
           | OtherDecl decl \<Rightarrow> Inl Unreachable)"
  by pat_completeness auto
termination
  by (relation "measure (\<lambda>(S, n, cur, st). n - cur)") auto

text \<open>Lines 357-362, again with the bound taken when the loop starts.\<close>

function drainDefinedFunctions ::
  "Sema \<Rightarrow> nat \<Rightarrow> nat \<Rightarrow> TypeChecker \<times> Trace \<Rightarrow> Fatal + nat \<times> TypeChecker \<times> Trace" where
  "drainDefinedFunctions S n currentFunctionIdx st =
     (if currentFunctionIdx = n then Inr (currentFunctionIdx, st)
      else if n < currentFunctionIdx \<or> length (definedFunctions (fst st)) \<le> currentFunctionIdx
      then Inl OutOfBounds
      else
        (let AFD = definedFunctions (fst st) ! currentFunctionIdx
         in drainDefinedFunctions S n (currentFunctionIdx + 1)
              (invoke (CheckBody AFD) (typeCheckAbstractFunctionBody S AFD) st)))"
  by pat_completeness auto
termination
  by (relation "measure (\<lambda>(S, n, cur, st). n - cur)") auto

text \<open>
  Lines 367-370: from \<open>i = currentFunctionIdx\<close> down to \<open>previousFunctionIdx + 1\<close>,
  on \<open>definedFunctions[i-1]\<close>. The elements are function declarations, so the
  \<open>dyn_cast\<close> succeeds.
\<close>

function computeCapturesLoop ::
  "Sema \<Rightarrow> nat \<Rightarrow> nat \<Rightarrow> TypeChecker \<times> Trace \<Rightarrow> Fatal + TypeChecker \<times> Trace" where
  "computeCapturesLoop S previousFunctionIdx i st =
     (if i > previousFunctionIdx then
        (if length (definedFunctions (fst st)) \<le> i - 1 then Inl OutOfBounds
         else
           (let FD = definedFunctions (fst st) ! (i - 1)
            in computeCapturesLoop S previousFunctionIdx (i - 1)
                 (invoke (ComputeCaptures FD) (computeCaptures S FD) st)))
      else Inr st)"
  by pat_completeness auto
termination
  by (relation "measure (\<lambda>(S, prev, i, st). i)") auto

text \<open>
  Lines 373-377. The checked declaration may push further types, so the loop need
  not end: \<open>None\<close> is "does not return".
\<close>

partial_function (option) drainValidatedTypes ::
  "Sema \<Rightarrow> TypeChecker \<times> Trace \<Rightarrow> (TypeChecker \<times> Trace) option" where
  "drainValidatedTypes S st =
     (if ValidatedTypes (fst st) \<noteq> [] then
        (let nominal = last (ValidatedTypes (fst st));
             popped = (fst st)\<lparr>ValidatedTypes := butlast (ValidatedTypes (fst st))\<rparr>
         in drainValidatedTypes S
              (invoke (FirstPass nominal) (typeCheckDecl S nominal True) (popped, snd st)))
      else Some st)"

text \<open>Lines 379-382.\<close>

definition insertImplicitlyDefinedFunctions :: "TypeChecker \<Rightarrow> TypeChecker" where
  "insertImplicitlyDefinedFunctions tc =
     tc\<lparr>definedFunctions := definedFunctions tc @ implicitlyDefinedFunctions tc,
        implicitlyDefinedFunctions := []\<rparr>"

text \<open>
  One run of the body of the \<open>do ... while\<close>, lines 335-382: the cursors and the
  state after it.
\<close>

definition schedulerIteration ::
  "Sema \<Rightarrow> nat \<Rightarrow> nat \<Rightarrow> TypeChecker \<times> Trace \<Rightarrow>
     (Fatal + nat \<times> nat \<times> TypeChecker \<times> Trace) option" where
  "schedulerIteration S currentFunctionIdx currentExternalDef st =
     (case drainExternalDefinitions S (length (ExternalDefinitions (Context (fst st))))
             currentExternalDef st of
        Inl fatal \<Rightarrow> Some (Inl fatal)
      | Inr (currentExternalDef', st1) \<Rightarrow>
          (let previousFunctionIdx = currentFunctionIdx
           in case drainDefinedFunctions S (length (definedFunctions (fst st1)))
                     currentFunctionIdx st1 of
                Inl fatal \<Rightarrow> Some (Inl fatal)
              | Inr (currentFunctionIdx', st2) \<Rightarrow>
                  (case computeCapturesLoop S previousFunctionIdx currentFunctionIdx' st2 of
                     Inl fatal \<Rightarrow> Some (Inl fatal)
                   | Inr st3 \<Rightarrow>
                       (case drainValidatedTypes S st3 of
                          None \<Rightarrow> None
                        | Some st4 \<Rightarrow>
                            Some (Inr (currentFunctionIdx', currentExternalDef',
                                       insertImplicitlyDefinedFunctions (fst st4), snd st4))))))"

text \<open>The \<open>do ... while\<close> with its condition, lines 334-385.\<close>

partial_function (option) schedulerLoop ::
  "Sema \<Rightarrow> nat \<Rightarrow> nat \<Rightarrow> TypeChecker \<times> Trace \<Rightarrow>
     (Fatal + nat \<times> nat \<times> TypeChecker \<times> Trace) option" where
  "schedulerLoop S currentFunctionIdx currentExternalDef st =
     (case schedulerIteration S currentFunctionIdx currentExternalDef st of
        None \<Rightarrow> None
      | Some (Inl fatal) \<Rightarrow> Some (Inl fatal)
      | Some (Inr (currentFunctionIdx', currentExternalDef', tc, trace)) \<Rightarrow>
          if currentFunctionIdx' < length (definedFunctions tc) \<or>
             currentExternalDef' < length (ExternalDefinitions (Context tc))
          then schedulerLoop S currentFunctionIdx' currentExternalDef' (tc, trace)
          else Some (Inr (currentFunctionIdx', currentExternalDef', tc, trace)))"

text \<open>
  \<open>typeCheckFunctionsAndExternalDecls\<close>, lines 331-389. The result is \<open>None\<close> when
  the loop does not return, a fatal value, or the final function cursor (a local
  of the source), the final state and the record of the run.
\<close>

definition typeCheckFunctionsAndExternalDecls ::
  "Sema \<Rightarrow> TypeChecker \<Rightarrow> (Fatal + nat \<times> TypeChecker \<times> Trace) option" where
  "typeCheckFunctionsAndExternalDecls S tc =
     (case schedulerLoop S 0 (LastCheckedExternalDefinition (Context tc)) (tc, []) of
        None \<Rightarrow> None
      | Some (Inl fatal) \<Rightarrow> Some (Inl fatal)
      | Some (Inr (currentFunctionIdx, currentExternalDef, tc', trace)) \<Rightarrow>
          Some (Inr (currentFunctionIdx,
                     tc'\<lparr>Context := (Context tc')
                          \<lparr>LastCheckedExternalDefinition := currentExternalDef\<rparr>\<rparr>,
                     trace)))"

text \<open>
  The contract of the collaborators: the four collections are only appended to.
  (The stack is popped by the scheduler alone.)
\<close>

definition extends :: "'a list \<Rightarrow> 'a list \<Rightarrow> bool" where
  "extends xs ys = (take (length xs) ys = xs)"

definition grows :: "TypeChecker \<Rightarrow> TypeChecker \<Rightarrow> bool" where
  "grows tc tc' =
     (extends (ExternalDefinitions (Context tc)) (ExternalDefinitions (Context tc')) \<and>
      extends (definedFunctions tc) (definedFunctions tc') \<and>
      extends (implicitlyDefinedFunctions tc) (implicitlyDefinedFunctions tc') \<and>
      extends (ValidatedTypes tc) (ValidatedTypes tc'))"

definition appendOnly :: "Sema \<Rightarrow> bool" where
  "appendOnly S =
     (\<forall>d tc. grows tc (typeCheckAbstractFunctionBody S d tc) \<and>
             grows tc (handleExternalDecl S d tc) \<and>
             grows tc (computeCaptures S d tc) \<and>
             grows tc (typeCheckDecl S d True tc))"

text \<open>What the record of a run says: the calls of each kind and the items appended.\<close>

fun bodyOf :: "Call \<Rightarrow> DeclRef list" where
  "bodyOf (CheckBody d) = [d]"
| "bodyOf c = []"

fun externalOf :: "Call \<Rightarrow> Decl list" where
  "externalOf (CheckExternalBody d) = [AbstractFunctionDecl d]"
| "externalOf (HandleExternalDecl d) = [NominalDecl d]"
| "externalOf c = []"

fun firstPassOf :: "Call \<Rightarrow> DeclRef list" where
  "firstPassOf (FirstPass d) = [d]"
| "firstPassOf c = []"

fun capturesOf :: "Call \<Rightarrow> DeclRef list" where
  "capturesOf (ComputeCaptures d) = [d]"
| "capturesOf c = []"

definition checkedBodies :: "Trace \<Rightarrow> DeclRef list" where
  "checkedBodies tr = concat (map (\<lambda>e. bodyOf (fst e)) tr)"

definition processedExternals :: "Trace \<Rightarrow> Decl list" where
  "processedExternals tr = concat (map (\<lambda>e. externalOf (fst e)) tr)"

definition firstPassed :: "Trace \<Rightarrow> DeclRef list" where
  "firstPassed tr = concat (map (\<lambda>e. firstPassOf (fst e)) tr)"

definition capturesComputed :: "Trace \<Rightarrow> DeclRef list" where
  "capturesComputed tr = concat (map (\<lambda>e. capturesOf (fst e)) tr)"

definition appendedExternals :: "Trace \<Rightarrow> Decl list" where
  "appendedExternals tr = concat (map (\<lambda>e. grownExternal (snd e)) tr)"

definition appendedFunctions :: "Trace \<Rightarrow> DeclRef list" where
  "appendedFunctions tr = concat (map (\<lambda>e. grownFunctions (snd e)) tr)"

definition stagedFunctions :: "Trace \<Rightarrow> DeclRef list" where
  "stagedFunctions tr = concat (map (\<lambda>e. grownImplicit (snd e)) tr)"

definition pushedTypes :: "Trace \<Rightarrow> DeclRef list" where
  "pushedTypes tr = concat (map (\<lambda>e. grownValidated (snd e)) tr)"

text \<open>
  The invariant of the loops, for cursors \<open>cf\<close> and \<open>ce\<close>: the bodies checked so
  far are the functions before \<open>cf\<close>, the external definitions handled so far are
  those from the starting cursor up to \<open>ce\<close>, and the collections account for
  everything pushed, staged and appended.
\<close>

definition schedInv :: "TypeChecker \<Rightarrow> nat \<Rightarrow> nat \<Rightarrow> TypeChecker \<times> Trace \<Rightarrow> bool" where
  "schedInv tc0 cf ce st =
     (cf \<le> length (definedFunctions (fst st)) \<and>
      checkedBodies (snd st) = take cf (definedFunctions (fst st)) \<and>
      LastCheckedExternalDefinition (Context tc0) \<le> ce \<and>
      ce \<le> length (ExternalDefinitions (Context (fst st))) \<and>
      processedExternals (snd st) =
        drop (LastCheckedExternalDefinition (Context tc0))
          (take ce (ExternalDefinitions (Context (fst st)))) \<and>
      mset (firstPassed (snd st)) + mset (ValidatedTypes (fst st)) =
        mset (ValidatedTypes tc0) + mset (pushedTypes (snd st)) \<and>
      mset (definedFunctions (fst st)) + mset (implicitlyDefinedFunctions (fst st)) =
        mset (definedFunctions tc0) + mset (implicitlyDefinedFunctions tc0) +
        mset (appendedFunctions (snd st)) + mset (stagedFunctions (snd st)) \<and>
      mset (ExternalDefinitions (Context (fst st))) =
        mset (ExternalDefinitions (Context tc0)) + mset (appendedExternals (snd st)))"

definition drained :: "nat \<Rightarrow> nat \<Rightarrow> TypeChecker \<Rightarrow> bool" where
  "drained cf ce tc =
     (cf = length (definedFunctions tc) \<and> ce = length (ExternalDefinitions (Context tc)) \<and>
      ValidatedTypes tc = [] \<and> implicitlyDefinedFunctions tc = [])"

fun isExternalCall :: "Call \<Rightarrow> bool" where
  "isExternalCall (CheckExternalBody d) = True"
| "isExternalCall (HandleExternalDecl d) = True"
| "isExternalCall c = False"

fun isFirstPassCall :: "Call \<Rightarrow> bool" where
  "isFirstPassCall (FirstPass d) = True"
| "isFirstPassCall c = False"

text \<open>
  The state a record stands for. A recorded call is its collaborator applied to
  the recorded declaration; a first pass comes with the pop of the stack before it
  (lines 374-376). One iteration of the loop is its calls, in order, and then the
  insertion of the staged functions (lines 379-382). A run is its iterations, one
  after the other; at a fixed point the cursor stored at line 388 is the length of
  the external definitions.
\<close>

fun perform :: "Sema \<Rightarrow> Call \<Rightarrow> TypeChecker \<Rightarrow> TypeChecker" where
  "perform S (CheckExternalBody AFD) tc = typeCheckAbstractFunctionBody S AFD tc"
| "perform S (HandleExternalDecl decl) tc = handleExternalDecl S decl tc"
| "perform S (CheckBody AFD) tc = typeCheckAbstractFunctionBody S AFD tc"
| "perform S (ComputeCaptures FD) tc = computeCaptures S FD tc"
| "perform S (FirstPass nominal) tc =
     typeCheckDecl S nominal True (tc\<lparr>ValidatedTypes := butlast (ValidatedTypes tc)\<rparr>)"

definition replayIteration :: "Sema \<Rightarrow> Call list \<Rightarrow> TypeChecker \<Rightarrow> TypeChecker" where
  "replayIteration S calls tc = insertImplicitlyDefinedFunctions (fold (perform S) calls tc)"

definition replay :: "Sema \<Rightarrow> Call list list \<Rightarrow> TypeChecker \<Rightarrow> TypeChecker" where
  "replay S iterations tc = fold (replayIteration S) iterations tc"

definition storeLastChecked :: "TypeChecker \<Rightarrow> TypeChecker" where
  "storeLastChecked tc =
     tc\<lparr>Context := (Context tc)
          \<lparr>LastCheckedExternalDefinition := length (ExternalDefinitions (Context tc))\<rparr>\<rparr>"

text \<open>
  A stretch of a run from \<open>st\<close> to \<open>st'\<close> within one iteration: the record grew by
  some calls, and the state is those calls applied, in order, to the state before.
\<close>

definition replays :: "Sema \<Rightarrow> TypeChecker \<times> Trace \<Rightarrow> TypeChecker \<times> Trace \<Rightarrow> Call list \<Rightarrow> bool" where
  "replays S st st' new =
     (map fst (snd st') = map fst (snd st) @ new \<and> fst st' = fold (perform S) new (fst st))"

section \<open>Concrete inputs\<close>

text \<open>
  A small context for concrete runs: the registry knows the character-literal
  protocol (declaration 7, already typed and valid) and nothing else.
\<close>

definition emptyContext :: ASTContext where
  "emptyContext =
     \<lparr>knownProtocols = (\<lambda>k. None),
      protocolDecls = (\<lambda>p. \<lparr>protoHasType = True, protoIsInvalid = False\<rparr>),
      nominalDecls = (\<lambda>d. \<lparr>getGenericParams = None, getDeclaredType = NominalType d,
                              getExtensions = []\<rparr>),
      ExternalDefinitions = [],
      LastCheckedExternalDefinition = 0\<rparr>"

definition emptyTC :: TypeChecker where
  "emptyTC = \<lparr>Context = emptyContext, Diags = [], definedFunctions = [],
              implicitlyDefinedFunctions = [], ValidatedTypes = []\<rparr>"

definition charTC :: TypeChecker where
  "charTC = emptyTC\<lparr>Context :=
     emptyContext\<lparr>knownProtocols := (\<lambda>k. if k = CharacterLiteralConvertible then Some 7 else None)\<rparr>\<rparr>"

definition someInherited :: "TypeLoc list" where
  "someInherited =
     [\<lparr>getTypeRepr = None\<rparr>,
      \<lparr>getTypeRepr = Some (OtherTypeRepr 0)\<rparr>,
      \<lparr>getTypeRepr = Some (IdentTypeRepr (GenericIdentTypeRepr (Some 1) ''Equatable'' 1) [])\<rparr>,
      \<lparr>getTypeRepr = Some (IdentTypeRepr (SimpleIdentTypeRepr (Some 2) ''equatable'') [])\<rparr>,
      \<lparr>getTypeRepr = Some (IdentTypeRepr (SimpleIdentTypeRepr (Some 3) ''Hashable'')
                                        [GenericIdentTypeRepr (Some 4) ''Inner'' 2])\<rparr>]"

definition qualifiedHashable :: TypeLoc where
  "qualifiedHashable =
     \<lparr>getTypeRepr = Some (IdentTypeRepr (SimpleIdentTypeRepr (Some 5) ''Swift'')
                                       [SimpleIdentTypeRepr (Some 6) ''Hashable''])\<rparr>"






text \<open>
  A context with the non-generic struct \<open>Foo\<close> (declaration 1) and the generic
  struct \<open>Pair<A, B>\<close> (declaration 2), a validation collaborator that resolves
  these two names, and extensions of them.
\<close>

definition binderTC :: TypeChecker where
  "binderTC = emptyTC\<lparr>Context := emptyContext\<lparr>nominalDecls :=
     (\<lambda>d. if d = 2
          then \<lparr>getGenericParams = Some (GenericParamList [''A'', ''B''] None),
                getDeclaredType = UnboundGenericType 2, getExtensions = []\<rparr>
          else \<lparr>getGenericParams = None, getDeclaredType = NominalType d,
                getExtensions = []\<rparr>)\<rparr>\<rparr>"

definition resolveNames :: validateType where
  "resolveNames components dc tc =
     (case components of
        [SimpleIdentTypeRepr loc name] \<Rightarrow>
          if name = ''Foo''
          then (Validated (\<lambda>i. BoundType (NominalType 1)) (NominalType 1), tc)
          else if name = ''Pair''
          then (Validated (\<lambda>i. BoundType (UnboundGenericType 2)) (UnboundGenericType 2), tc)
          else if name = ''Alias''
          then (Validated (\<lambda>i. Unbound) (OtherType 0), tc)
          else (ValidateError, diagnose (other_diagnostic 0) tc)
      | _ \<Rightarrow> (ValidateError, diagnose (other_diagnostic 0) tc))"

definition extensionOf :: "Identifier \<Rightarrow> GenericParamList option \<Rightarrow> ExtensionDecl" where
  "extensionOf name gps =
     \<lparr>extRef = 100, getExtendedType = None, extInvalid = False,
      getRefComponents = [\<lparr>NameLoc = Some 10, Name = name, GenericParams = gps\<rparr>],
      getDeclContext = 0\<rparr>"

definition fooWithT :: ExtensionDecl where
  "fooWithT = extensionOf ''Foo'' (Some (GenericParamList [''T''] None))"

definition pairWith3 :: ExtensionDecl where
  "pairWith3 = extensionOf ''Pair'' (Some (GenericParamList [''X'', ''Y'', ''Z''] None))"

definition pairWith2 :: ExtensionDecl where
  "pairWith2 = extensionOf ''Pair'' (Some (GenericParamList [''X'', ''Y''] None))"

definition fooMetatype :: ExtensionDecl where
  "fooMetatype =
     \<lparr>extRef = 101, getExtendedType = None, extInvalid = False,
      getRefComponents = [\<lparr>NameLoc = Some 10, Name = ''Foo'', GenericParams = None\<rparr>,
                          \<lparr>NameLoc = Some 14, Name = ''Type'', GenericParams = None\<rparr>],
      getDeclContext = 0\<rparr>"

lemmas concrete_defs = binderTC_def resolveNames_def extensionOf_def fooWithT_def pairWith3_def
  pairWith2_def fooMetatype_def emptyTC_def emptyContext_def mkComponent_def

text \<open>
  Collaborators for concrete runs of the scheduler. With \<open>busySema\<close>, checking
  function 1 appends function 2 and pushes type 7; the first pass of 7 stages the
  implicit function 4 and pushes type 8; checking function 2 appends two external
  definitions; handling the external type 6 stages the implicit function 3. Every
  call also leaves a diagnostic in the state: the number of the declaration for a
  body check, the handling of an external declaration and a first pass, and ten
  more than it for \<open>computeCaptures\<close>. With
  \<open>nestedSema\<close>, checking function 1 appends its nested function 2, and checking 2
  appends its nested function 3.
\<close>

definition busySema :: Sema where
  "busySema =
     \<lparr>typeCheckAbstractFunctionBody =
        (\<lambda>AFD tc.
           diagnose (other_diagnostic AFD)
             (if AFD = 1
              then tc\<lparr>definedFunctions := definedFunctions tc @ [2],
                      ValidatedTypes := ValidatedTypes tc @ [7]\<rparr>
              else if AFD = 2
              then tc\<lparr>Context := (Context tc)\<lparr>ExternalDefinitions :=
                        ExternalDefinitions (Context tc) @ [AbstractFunctionDecl 5, NominalDecl 6]\<rparr>\<rparr>
              else tc)),
      handleExternalDecl =
        (\<lambda>decl tc.
           diagnose (other_diagnostic decl)
             (if decl = 6
              then tc\<lparr>implicitlyDefinedFunctions := implicitlyDefinedFunctions tc @ [3]\<rparr>
              else tc)),
      computeCaptures = (\<lambda>FD tc. diagnose (other_diagnostic (10 + FD)) tc),
      typeCheckDecl =
        (\<lambda>nominal isFirstPass tc.
           diagnose (other_diagnostic nominal)
             (if nominal = 7
              then tc\<lparr>implicitlyDefinedFunctions := implicitlyDefinedFunctions tc @ [4],
                      ValidatedTypes := ValidatedTypes tc @ [8]\<rparr>
              else tc))\<rparr>"

definition oneFunction :: TypeChecker where
  "oneFunction = emptyTC\<lparr>definedFunctions := [1]\<rparr>"

lemmas scheduler_defs = typeCheckFunctionsAndExternalDecls_def schedulerLoop.simps
  schedulerIteration_def
  drainValidatedTypes.simps oneFunction_def emptyTC_def emptyContext_def invoke_def
  insertImplicitlyDefinedFunctions_def growth_def Let_def

definition nestedSema :: Sema where
  "nestedSema =
     \<lparr>typeCheckAbstractFunctionBody =
        (\<lambda>AFD tc. if AFD = 1 then tc\<lparr>definedFunctions := definedFunctions tc @ [2]\<rparr>
                   else if AFD = 2 then tc\<lparr>definedFunctions := definedFunctions tc @ [3]\<rparr>
                   else tc),
      handleExternalDecl = (\<lambda>decl tc. tc),
      computeCaptures = (\<lambda>FD tc. tc),
      typeCheckDecl = (\<lambda>nominal isFirstPass tc. tc)\<rparr>"

section \<open>Theorems: capability lookup\<close>

lemma getLiteralProtocol_table:
  "getLiteralProtocol validateDecl expr tc = lookupVia literalTable validateDecl expr tc"
proof (cases "exprKind expr")
  case (StringLiteralExpr b)
  then show ?thesis
    by (cases b) (simp_all add: getLiteralProtocol_def lookupVia_def literalTable_def)
next
  case (MagicIdentifierLiteralExpr k)
  then show ?thesis
    by (cases k) (simp_all add: getLiteralProtocol_def lookupVia_def literalTable_def)
qed (simp_all add: getLiteralProtocol_def lookupVia_def literalTable_def)

text \<open>
  C5 (as stated, refuted). The claim says the mapping is exactly the table of the
  specification and that no expression kind outside it maps to a capability. A
  character literal is outside the table, and the source asks the registry for the
  character-literal protocol and returns it.
\<close>

theorem C5_character_literal_counterexample:
  "specLiteralTable CharacterLiteralExpr = None \<and>
   fst (getLiteralProtocol (\<lambda>p tc. tc) \<lparr>exprKind = CharacterLiteralExpr, getLoc = Some 3\<rparr> charTC)
     = Some 7 \<and>
   getLiteralProtocol (\<lambda>p tc. tc) \<lparr>exprKind = CharacterLiteralExpr, getLoc = Some 3\<rparr> charTC
     \<noteq> lookupVia specLiteralTable (\<lambda>p tc. tc) \<lparr>exprKind = CharacterLiteralExpr, getLoc = Some 3\<rparr> charTC"
  by (simp add: getLiteralProtocol_def getProtocol_def lookupVia_def charTC_def emptyTC_def
      emptyContext_def Let_def)

text \<open>
  C5 (amended). \<open>getLiteralProtocol\<close> is total and, for every expression, looks up
  through \<open>getProtocol\<close> the capability of the specification's table extended by
  one row, character literal to character-literal-constructible; for every other
  expression kind outside the table it returns none and leaves the state alone. The
  rows of the extended table are listed in the second part.
\<close>

theorem C5_getLiteralProtocol_amended:
  "getLiteralProtocol validateDecl expr tc =
     (case literalTable (exprKind expr) of
        None \<Rightarrow> (None, tc)
      | Some kind \<Rightarrow> getProtocol validateDecl (getLoc expr) kind tc)
   \<and> literalTable NilLiteralExpr = Some NilLiteralConvertible
   \<and> literalTable IntegerLiteralExpr = Some IntegerLiteralConvertible
   \<and> literalTable FloatLiteralExpr = Some FloatLiteralConvertible
   \<and> literalTable BooleanLiteralExpr = Some BooleanLiteralConvertible
   \<and> literalTable CharacterLiteralExpr = Some CharacterLiteralConvertible
   \<and> literalTable (StringLiteralExpr True) = Some ExtendedGraphemeClusterLiteralConvertible
   \<and> literalTable (StringLiteralExpr False) = Some StringLiteralConvertible
   \<and> literalTable InterpolatedStringLiteralExpr = Some StringInterpolationConvertible
   \<and> literalTable ArrayExpr = Some ArrayLiteralConvertible
   \<and> literalTable DictionaryExpr = Some DictionaryLiteralConvertible
   \<and> literalTable (MagicIdentifierLiteralExpr File) = Some StringLiteralConvertible
   \<and> literalTable (MagicIdentifierLiteralExpr Function) = Some StringLiteralConvertible
   \<and> literalTable (MagicIdentifierLiteralExpr Line) = Some IntegerLiteralConvertible
   \<and> literalTable (MagicIdentifierLiteralExpr Column) = Some IntegerLiteralConvertible
   \<and> literalTable (OtherExpr n) = None"
  using getLiteralProtocol_table [of validateDecl expr tc]
  by (simp add: lookupVia_def literalTable_def)

text \<open>
  C8 (as stated, refuted). The claim has one diagnostic for every lookup of an absent
  capability. The source emits it only under \<open>loc.isValid()\<close>: with the invalid
  location the lookup of an absent capability returns null and emits nothing.
\<close>

theorem C8_invalid_loc_counterexample:
  "knownProtocols (Context emptyTC) NilLiteralConvertible = None \<and>
   getProtocol (\<lambda>p tc. tc) None NilLiteralConvertible emptyTC = (None, emptyTC) \<and>
   Diags (snd (getProtocol (\<lambda>p tc. tc) None NilLiteralConvertible emptyTC)) = []"
  by (simp add: getProtocol_def isValid_def emptyTC_def emptyContext_def Let_def)

text \<open>
  C8 (amended). For a lookup whose capability is absent from the registry,
  \<open>getProtocol\<close> returns none, never calls the validation collaborator, and appends
  exactly one missing-protocol diagnostic when the lookup location is valid and none
  when it is not; the state is otherwise unchanged. The caller in this file,
  \<open>getLiteralProtocol\<close>, hands that none on as its ordinary result.
\<close>

theorem C8_getProtocol_absent:
  assumes "knownProtocols (Context tc) kind = None"
  shows "getProtocol validateDecl loc kind tc =
           (None, if isValid loc
                  then tc\<lparr>Diags := Diags tc @ [missing_protocol loc (getProtocolName kind)]\<rparr>
                  else tc)
         \<and> (literalTable (exprKind expr) = Some kind \<longrightarrow>
              getLiteralProtocol validateDecl expr tc =
                (None, if isValid (getLoc expr)
                       then tc\<lparr>Diags := Diags tc @
                                   [missing_protocol (getLoc expr) (getProtocolName kind)]\<rparr>
                       else tc))"
proof -
  have g: "getProtocol validateDecl l kind tc =
           (None, if isValid l
                  then tc\<lparr>Diags := Diags tc @ [missing_protocol l (getProtocolName kind)]\<rparr>
                  else tc)" for l
    using assms by (simp add: getProtocol_def diagnose_def Let_def)
  show ?thesis
    using g [of loc] g [of "getLoc expr"]
    by (simp add: getLiteralProtocol_table lookupVia_def)
qed

theorem C8_getProtocol_absent_witness:
  "knownProtocols (Context emptyTC) IntegerLiteralConvertible = None \<and>
   getProtocol (\<lambda>p tc. tc\<lparr>Diags := []\<rparr>) (Some 5) IntegerLiteralConvertible emptyTC =
     (None, emptyTC\<lparr>Diags := [missing_protocol (Some 5) ''IntegerLiteralConvertible'']\<rparr>) \<and>
   getLiteralProtocol (\<lambda>p tc. tc\<lparr>Diags := []\<rparr>)
       \<lparr>exprKind = MagicIdentifierLiteralExpr Line, getLoc = Some 9\<rparr> emptyTC =
     (None, emptyTC\<lparr>Diags := [missing_protocol (Some 9) ''IntegerLiteralConvertible'']\<rparr>)"
proof -
  have a: "knownProtocols (Context emptyTC) IntegerLiteralConvertible = None"
    by (simp add: emptyTC_def emptyContext_def)
  show ?thesis
    using a C8_getProtocol_absent [OF a, of "\<lambda>p tc. tc\<lparr>Diags := []\<rparr>" "Some 5"
        "\<lparr>exprKind = MagicIdentifierLiteralExpr Line, getLoc = Some 9\<rparr>"]
    by (simp add: isValid_def emptyTC_def literalTable_def)
qed

section \<open>Theorems: the conformance gate\<close>

lemma componentsBack_last: "componentsBack c cs = last (c # cs)"
  by (simp add: componentsBack_def)

text \<open>
  C7. \<open>mayConformToKnownProtocol\<close> is true exactly when some entry of the written
  inheritance list has a final name component that is a simple identifier whose
  text is, as a string, one of the known protocol names. Entries with no type
  representation, with a representation that is not an identifier path, or with a
  final component that is not a simple identifier have no final simple identifier
  and so never contribute.
\<close>

theorem C7_mayConformToKnownProtocol_iff:
  "mayConformToKnownProtocol known inherited =
     (\<exists>entry \<in> set inherited. namesKnownProtocol known entry)"
proof (induction inherited)
  case Nil
  show ?case by simp
next
  case (Cons entry rest)
  show ?case
  proof (cases "getTypeRepr entry")
    case None
    then show ?thesis
      using Cons.IH by (simp add: namesKnownProtocol_def finalSimpleIdentifier_def)
  next
    case (Some r)
    show ?thesis
    proof (cases r)
      case (OtherTypeRepr n)
      then show ?thesis
        using Some Cons.IH by (simp add: namesKnownProtocol_def finalSimpleIdentifier_def)
    next
      case (IdentTypeRepr c cs)
      show ?thesis
      proof (cases "last (c # cs)")
        case (SimpleIdentTypeRepr loc ident)
        then show ?thesis
          using Some IdentTypeRepr Cons.IH
          by (simp add: namesKnownProtocol_def finalSimpleIdentifier_def componentsBack_last
              Let_def del: last.simps)
      next
        case (GenericIdentTypeRepr loc ident n)
        then show ?thesis
          using Some IdentTypeRepr Cons.IH
          by (simp add: namesKnownProtocol_def finalSimpleIdentifier_def componentsBack_last
              del: last.simps)
      qed
    qed
  qed
qed

theorem C7_mayConformToKnownProtocol_witness:
  "mayConformToKnownProtocol [''Equatable'', ''Hashable''] someInherited = False \<and>
   mayConformToKnownProtocol [''Equatable'', ''Hashable''] (someInherited @ [qualifiedHashable])
     = True \<and>
   namesKnownProtocol [''Equatable'', ''Hashable''] qualifiedHashable"
  using C7_mayConformToKnownProtocol_iff [of "[''Equatable'', ''Hashable'']" someInherited]
    C7_mayConformToKnownProtocol_iff [of "[''Equatable'', ''Hashable'']"
      "someInherited @ [qualifiedHashable]"]
  by (simp add: someInherited_def qualifiedHashable_def namesKnownProtocol_def
      finalSimpleIdentifier_def)

section \<open>Theorems: the sealing walker\<close>








section \<open>Theorems: the extension binder\<close>

lemma synthesizeComponents_nonempty:
  "components \<noteq> [] \<Longrightarrow>
   synthesizeComponents refs components =
     (case find (\<lambda>ref. Name ref = Id_Type) refs of
        Some r \<Rightarrow> Inl (NameLoc r)
      | None \<Rightarrow> Inr (components @ map mkComponent refs))"
  by (induction refs arbitrary: components) (auto simp: mkComponent_def split: option.splits)

lemma synthesizeComponents_start:
  "synthesizeComponents refs [] =
     (case firstMetatypeRef refs of
        Some r \<Rightarrow> Inl (NameLoc r)
      | None \<Rightarrow> Inr (map mkComponent refs))"
proof (cases refs)
  case Nil
  then show ?thesis by (simp add: firstMetatypeRef_def)
next
  case (Cons ref rest)
  then show ?thesis
    by (simp add: firstMetatypeRef_def synthesizeComponents_nonempty mkComponent_def
        split: option.splits)
qed

lemma firstMetatypeRef_exists:
  assumes "0 < i" "i < length refs" "Name (refs ! i) = Id_Type"
  shows "\<exists>r. firstMetatypeRef refs = Some r"
proof -
  obtain ref rest where refs: "refs = ref # rest" using assms(2) by (cases refs) auto
  with assms have "rest ! (i - 1) \<in> set rest" "Name (rest ! (i - 1)) = Id_Type"
    by (auto simp: nth_Cons')
  then have "find (\<lambda>ref. Name ref = Id_Type) rest \<noteq> None"
    by (auto simp: find_None_iff)
  then show ?thesis by (auto simp: firstMetatypeRef_def refs)
qed

text \<open>
  C10. For an extension that is not bound yet: if a component of the dotted path
  other than the first is named \<open>Type\<close>, \<open>bindExtensionDecl\<close> emits the metatype
  diagnostic at the first such component, marks the extension invalid and sets its
  extended type to the error type. The result is this for every validation
  collaborator, and the state is the old state with that one diagnostic: nothing
  the collaborator could do is part of it, so it is not called.
\<close>

theorem C10_metatype:
  assumes "getExtendedType ED = None"
    and "0 < i" and "i < length (getRefComponents ED)"
    and "Name (getRefComponents ED ! i) = Id_Type"
  shows "\<exists>r. firstMetatypeRef (getRefComponents ED) = Some r \<and>
             bindExtensionDecl validateType ED tc =
               (invalidated ED, diagnose (extension_metatype (NameLoc r)) tc)"
proof -
  obtain r where r: "firstMetatypeRef (getRefComponents ED) = Some r"
    using firstMetatypeRef_exists [OF assms(2-4)] by blast
  then have "bindExtensionDecl validateType ED tc =
               (invalidated ED, diagnose (extension_metatype (NameLoc r)) tc)"
    using assms(1)
    by (simp add: bindExtensionDecl_def synthesizeComponents_start invalidated_def
        setExtendedType_def setInvalid_def)
  with r show ?thesis by blast
qed

lemma arityMismatch_cong:
  "Context tc' = Context tc \<Longrightarrow> getRefComponents ED' ! i = getRefComponents ED ! i \<Longrightarrow>
   arityMismatch bound tc' ED' i = arityMismatch bound tc ED i"
  by (simp add: arityMismatch_def cong: option.case_cong)

lemma arityDiagnostic_cong:
  "Context tc' = Context tc \<Longrightarrow> getRefComponents ED' ! i = getRefComponents ED ! i \<Longrightarrow>
   arityDiagnostic bound tc' ED' i = arityDiagnostic bound tc ED i"
  by (simp add: arityDiagnostic_def cong: option.case_cong)

lemma checkComponent_mismatch:
  assumes "arityMismatch bound tc ED i"
  shows "\<exists>d. arityDiagnostic bound tc ED i = Some d \<and>
             checkComponent bound i outer ED tc = Return (invalidated ED) (diagnose d tc)"
  using assms
  by (auto simp: arityMismatch_def arityDiagnostic_def checkComponent_def invalidated_def
      setExtendedType_def setInvalid_def Let_def split: option.splits)

lemma checkComponent_no_mismatch:
  assumes "\<not> arityMismatch bound tc ED i"
  shows "\<exists>outer' ED' tc'. checkComponent bound i outer ED tc = Continue outer' ED' tc' \<and>
           sameExtension {i} ED ED' \<and> Context tc' = Context tc"
  using assms
  by (auto simp: arityMismatch_def checkComponent_def sameExtension_def setRefGenericParams_def
      diagnose_def Let_def split: option.splits)

lemma sameExtension_trans:
  assumes "sameExtension S ED ED'" "sameExtension T ED' ED''"
  shows "sameExtension (S \<union> T) ED ED''"
proof -
  have "getRefComponents ED'' ! j = getRefComponents ED ! j" if "j \<notin> S \<union> T" for j
  proof -
    have "getRefComponents ED'' ! j = getRefComponents ED' ! j"
      using assms(2) that unfolding sameExtension_def by blast
    also have "\<dots> = getRefComponents ED ! j"
      using assms(1) that unfolding sameExtension_def by blast
    finally show ?thesis .
  qed
  then show ?thesis
    using assms unfolding sameExtension_def by metis
qed

lemma sameExtension_nth:
  "sameExtension S ED ED' \<Longrightarrow> j \<notin> S \<Longrightarrow> getRefComponents ED' ! j = getRefComponents ED ! j"
  unfolding sameExtension_def by blast

lemma sameExtension_refl: "sameExtension S ED ED"
  unfolding sameExtension_def by blast

lemma checkComponents_no_mismatch:
  assumes "\<forall>i \<in> set ixs. \<not> arityMismatch bound tc ED i" "distinct ixs"
  shows "\<exists>outer' ED' tc'. checkComponents bound ixs outer ED tc = Continue outer' ED' tc' \<and>
           sameExtension (set ixs) ED ED' \<and> Context tc' = Context tc"
  using assms
proof (induction ixs arbitrary: outer ED tc)
  case Nil
  show ?case using sameExtension_refl by simp
next
  case (Cons i rest)
  have "\<not> arityMismatch bound tc ED i" using Cons.prems(1) by simp
  then obtain o1 E1 t1 where
    step: "checkComponent bound i outer ED tc = Continue o1 E1 t1"
    and fr: "sameExtension {i} ED E1" and ctx: "Context t1 = Context tc"
    using checkComponent_no_mismatch [of bound tc ED i outer] by blast
  have "\<forall>j \<in> set rest. \<not> arityMismatch bound t1 E1 j"
  proof
    fix j assume j: "j \<in> set rest"
    then have "j \<notin> {i}" using Cons.prems(2) by auto
    then have "getRefComponents E1 ! j = getRefComponents ED ! j"
      using fr by (rule sameExtension_nth [rotated])
    then have "arityMismatch bound t1 E1 j = arityMismatch bound tc ED j"
      using ctx by (rule arityMismatch_cong [rotated])
    then show "\<not> arityMismatch bound t1 E1 j" using Cons.prems(1) j by simp
  qed
  moreover have "distinct rest" using Cons.prems(2) by simp
  ultimately obtain o2 E2 t2 where
    loop: "checkComponents bound rest o1 E1 t1 = Continue o2 E2 t2"
    and fr2: "sameExtension (set rest) E1 E2" and ctx2: "Context t2 = Context t1"
    using Cons.IH [of t1 E1 o1] by blast
  have "sameExtension (set (i # rest)) ED E2"
    using sameExtension_trans [OF fr fr2] by simp
  moreover have "checkComponents bound (i # rest) outer ED tc = Continue o2 E2 t2"
    using step loop by simp
  moreover have "Context t2 = Context tc" using ctx ctx2 by simp
  ultimately show ?case by blast
qed

lemma checkComponents_append:
  "checkComponents bound (xs @ ys) outer ED tc =
     (case checkComponents bound xs outer ED tc of
        Return ED' tc' \<Rightarrow> Return ED' tc'
      | Continue outer' ED' tc' \<Rightarrow> checkComponents bound ys outer' ED' tc')"
proof (induction xs arbitrary: outer ED tc)
  case Nil
  show ?case by simp
next
  case (Cons i rest)
  show ?case
    by (cases "checkComponent bound i outer ED tc") (simp_all add: Cons.IH)
qed

lemma upt_split_at: "k < n \<Longrightarrow> [0..<n] = [0..<k] @ k # [Suc k..<n]"
proof -
  assume k: "k < n"
  have "[0..<k + (n - k)] = [0..<k] @ [k..<k + (n - k)]"
    by (rule upt_add_eq_append) simp
  moreover have "[k..<n] = k # [Suc k..<n]" using k by (rule upt_conv_Cons)
  ultimately show ?thesis using k by simp
qed

lemma checkComponents_first_mismatch:
  assumes k: "k < n" and first: "\<forall>j<k. \<not> arityMismatch bound tc ED j"
    and mis: "arityMismatch bound tc ED k"
  shows "\<exists>outer' ED' tc' d.
           checkComponents bound [0..<k] outer ED tc = Continue outer' ED' tc' \<and>
           sameExtension {..<k} ED ED' \<and> Context tc' = Context tc \<and>
           arityDiagnostic bound tc ED k = Some d \<and>
           checkComponents bound [0..<n] outer ED tc = Return (invalidated ED') (diagnose d tc')"
proof -
  have "\<forall>j \<in> set [0..<k]. \<not> arityMismatch bound tc ED j" using first by simp
  then obtain o1 E1 t1 where
    pre: "checkComponents bound [0..<k] outer ED tc = Continue o1 E1 t1"
    and fr: "sameExtension (set [0..<k]) ED E1" and ctx: "Context t1 = Context tc"
    using checkComponents_no_mismatch [of "[0..<k]" bound tc ED outer] by auto
  have "k \<notin> set [0..<k]" by simp
  then have same: "getRefComponents E1 ! k = getRefComponents ED ! k"
    using fr by (rule sameExtension_nth [rotated])
  have "arityMismatch bound t1 E1 k"
    using mis arityMismatch_cong [OF ctx same] by simp
  then obtain d where d: "arityDiagnostic bound t1 E1 k = Some d"
    and step: "checkComponent bound k o1 E1 t1 = Return (invalidated E1) (diagnose d t1)"
    using checkComponent_mismatch by blast
  have d': "arityDiagnostic bound tc ED k = Some d"
    using d arityDiagnostic_cong [OF ctx same] by simp
  have "checkComponents bound [0..<n] outer ED tc = Return (invalidated E1) (diagnose d t1)"
    unfolding upt_split_at [OF k] by (simp add: checkComponents_append pre step)
  moreover have "sameExtension {..<k} ED E1" using fr by (simp add: atLeast0LessThan)
  ultimately show ?thesis using pre ctx d' by blast
qed

lemma checkComponent_result:
  "(case checkComponent bound i outer ED tc of
      Return ED' tc' \<Rightarrow> bindFailed ED' \<and> extRef ED' = extRef ED \<and> Context tc' = Context tc
    | Continue outer' ED' tc' \<Rightarrow>
        extRef ED' = extRef ED \<and> getExtendedType ED' = getExtendedType ED \<and>
        extInvalid ED' = extInvalid ED \<and> Context tc' = Context tc)"
  by (auto simp: checkComponent_def bindFailed_def setExtendedType_def setInvalid_def
      setRefGenericParams_def diagnose_def Let_def split: option.splits)

lemma checkComponents_result:
  "(case checkComponents bound ixs outer ED tc of
      Return ED' tc' \<Rightarrow> bindFailed ED' \<and> extRef ED' = extRef ED \<and> Context tc' = Context tc
    | Continue outer' ED' tc' \<Rightarrow>
        extRef ED' = extRef ED \<and> getExtendedType ED' = getExtendedType ED \<and>
        extInvalid ED' = extInvalid ED \<and> Context tc' = Context tc)"
proof (induction ixs arbitrary: outer ED tc)
  case Nil
  show ?case by simp
next
  case (Cons i rest)
  show ?case
  proof (cases "checkComponent bound i outer ED tc")
    case (Return E1 t1)
    then show ?thesis using checkComponent_result [where bound = bound and i = i and outer = outer and ED = ED and tc = tc] by simp
  next
    case (Continue o1 E1 t1)
    then have a: "extRef E1 = extRef ED" "getExtendedType E1 = getExtendedType ED"
      "extInvalid E1 = extInvalid ED" "Context t1 = Context tc"
      using checkComponent_result [where bound = bound and i = i and outer = outer and ED = ED and tc = tc] by simp_all
    show ?thesis
      using Cons.IH [where outer = o1 and ED = E1 and tc = t1] Continue a
      by (cases "checkComponents bound rest o1 E1 t1") simp_all
  qed
qed

lemma bindExtensionDecl_validated:
  assumes "getExtendedType ED = None"
    and "firstMetatypeRef (getRefComponents ED) = None"
    and "validateType (map mkComponent (getRefComponents ED)) (getDeclContext ED) tc
           = (Validated bound extendedTy, tc1)"
  shows "bindExtensionDecl validateType ED tc =
           (case checkComponents bound [0..<length (getRefComponents ED)] None ED tc1 of
              Return ED2 tc2 \<Rightarrow> (ED2, tc2)
            | Continue outer ED2 tc2 \<Rightarrow> finishBinding extendedTy ED2 tc2)"
  using assms
  by (simp add: bindExtensionDecl_def synthesizeComponents_start Let_def)

lemma firstArityMismatch_Some:
  assumes "i < length (getRefComponents ED)" "arityMismatch bound tc ED i"
  shows "\<exists>k. firstArityMismatch bound tc ED = Some k \<and> k \<le> i \<and>
             k < length (getRefComponents ED) \<and> arityMismatch bound tc ED k \<and>
             (\<forall>j<k. \<not> arityMismatch bound tc ED j)"
proof -
  let ?n = "length (getRefComponents ED)"
  have "i \<in> set [0..<?n]" using assms(1) by simp
  then have "find (arityMismatch bound tc ED) [0..<?n] \<noteq> None"
    using assms(2) by (auto simp: find_None_iff)
  then obtain k where k: "find (arityMismatch bound tc ED) [0..<?n] = Some k" by blast
  then obtain m where m: "m < length [0..<?n]" "arityMismatch bound tc ED ([0..<?n] ! m)"
    "k = [0..<?n] ! m" "\<forall>j<m. \<not> arityMismatch bound tc ED ([0..<?n] ! j)"
    unfolding find_Some_iff by blast
  have km: "k = m" using m(1,3) by simp
  have "k < ?n" using m(1) km by simp
  moreover have "arityMismatch bound tc ED k" using m(2) m(1) km by simp
  moreover have first: "\<forall>j<k. \<not> arityMismatch bound tc ED j"
  proof (intro allI impI)
    fix j assume "j < k"
    then have "j < m" "j < ?n" using km m(1) by simp_all
    then show "\<not> arityMismatch bound tc ED j" using m(4) by force
  qed
  moreover have "k \<le> i"
  proof (rule ccontr)
    assume "\<not> k \<le> i"
    then have "i < k" by simp
    then show False using first assms(2) by blast
  qed
  ultimately show ?thesis using k by (simp add: firstArityMismatch_def)
qed

lemma firstArityMismatch_None:
  assumes "firstArityMismatch bound tc ED = None"
  shows "\<forall>i \<in> set [0..<length (getRefComponents ED)]. \<not> arityMismatch bound tc ED i"
  using assms by (simp add: firstArityMismatch_def find_None_iff)

text \<open>
  C3. For an extension that is not bound yet, whose path has no metatype component
  and was resolved by the validation collaborator: when some component and the
  nominal type it denotes both carry generic parameter lists of different sizes,
  \<open>bindExtensionDecl\<close> walks the components before the first such component \<open>k\<close>,
  emits for \<open>k\<close> the arity diagnostic (whose flag is "have more than expected"),
  marks the extension invalid, sets the extended type to the error type and returns
  without looking at later components or registering the extension. When no
  component has such a mismatch the walk runs to its end and leaves the invalid mark
  and the extended type as they were: the other per-component checks recover
  locally.
\<close>

theorem C3_arity_mismatch:
  assumes unbound: "getExtendedType ED = None"
    and nometa: "firstMetatypeRef (getRefComponents ED) = None"
    and valid: "validateType (map mkComponent (getRefComponents ED)) (getDeclContext ED) tc
                  = (Validated bound extendedTy, tc1)"
  shows "(i < length (getRefComponents ED) \<and> arityMismatch bound tc1 ED i \<longrightarrow>
           (\<exists>k d outer ED' tc'.
              firstArityMismatch bound tc1 ED = Some k \<and> k \<le> i \<and>
              arityDiagnostic bound tc1 ED k = Some d \<and>
              checkComponents bound [0..<k] None ED tc1 = Continue outer ED' tc' \<and>
              bindExtensionDecl validateType ED tc = (invalidated ED', diagnose d tc') \<and>
              Context tc' = Context tc1))
       \<and> (firstArityMismatch bound tc1 ED = None \<longrightarrow>
           (\<exists>outer ED' tc'.
              checkComponents bound [0..<length (getRefComponents ED)] None ED tc1
                = Continue outer ED' tc' \<and>
              extInvalid ED' = extInvalid ED \<and> getExtendedType ED' = None))"
proof (intro conjI impI)
  assume "i < length (getRefComponents ED) \<and> arityMismatch bound tc1 ED i"
  then obtain k where k: "firstArityMismatch bound tc1 ED = Some k" "k \<le> i"
    "k < length (getRefComponents ED)" "arityMismatch bound tc1 ED k"
    "\<forall>j<k. \<not> arityMismatch bound tc1 ED j"
    using firstArityMismatch_Some by blast
  obtain outer ED' tc' d where w:
    "checkComponents bound [0..<k] None ED tc1 = Continue outer ED' tc'"
    "Context tc' = Context tc1" "arityDiagnostic bound tc1 ED k = Some d"
    "checkComponents bound [0..<length (getRefComponents ED)] None ED tc1
       = Return (invalidated ED') (diagnose d tc')"
    using checkComponents_first_mismatch [OF k(3) k(5) k(4)] by blast
  have "bindExtensionDecl validateType ED tc = (invalidated ED', diagnose d tc')"
    using bindExtensionDecl_validated [where validateType = validateType, OF unbound nometa valid]
      w(4) by simp
  with k w show "\<exists>k d outer ED' tc'.
              firstArityMismatch bound tc1 ED = Some k \<and> k \<le> i \<and>
              arityDiagnostic bound tc1 ED k = Some d \<and>
              checkComponents bound [0..<k] None ED tc1 = Continue outer ED' tc' \<and>
              bindExtensionDecl validateType ED tc = (invalidated ED', diagnose d tc') \<and>
              Context tc' = Context tc1"
    by blast
next
  assume "firstArityMismatch bound tc1 ED = None"
  then have "\<forall>i \<in> set [0..<length (getRefComponents ED)]. \<not> arityMismatch bound tc1 ED i"
    by (rule firstArityMismatch_None)
  then obtain outer ED' tc' where w:
    "checkComponents bound [0..<length (getRefComponents ED)] None ED tc1
       = Continue outer ED' tc'"
    "sameExtension (set [0..<length (getRefComponents ED)]) ED ED'"
    using checkComponents_no_mismatch [where outer = None] by (metis distinct_upt)
  have "extInvalid ED' = extInvalid ED" "getExtendedType ED' = None"
    using w(2) unbound unfolding sameExtension_def by simp_all
  with w(1) show "\<exists>outer ED' tc'.
              checkComponents bound [0..<length (getRefComponents ED)] None ED tc1
                = Continue outer ED' tc' \<and>
              extInvalid ED' = extInvalid ED \<and> getExtendedType ED' = None"
    by blast
qed

lemma bindFailed_invalidated: "bindFailed (invalidated ED)"
  by (simp add: bindFailed_def invalidated_def)

lemma bindExtensionDecl_bound:
  "getExtendedType ED \<noteq> None \<Longrightarrow> bindExtensionDecl validateType ED tc = (ED, tc)"
  by (simp add: bindExtensionDecl_def)

lemma bindExtensionDecl_metatype:
  "getExtendedType ED = None \<Longrightarrow> firstMetatypeRef (getRefComponents ED) = Some r \<Longrightarrow>
   bindExtensionDecl validateType ED tc =
     (invalidated ED, diagnose (extension_metatype (NameLoc r)) tc)"
  by (simp add: bindExtensionDecl_def synthesizeComponents_start invalidated_def
      setExtendedType_def setInvalid_def)

lemma bindExtensionDecl_validate_error:
  "getExtendedType ED = None \<Longrightarrow> firstMetatypeRef (getRefComponents ED) = None \<Longrightarrow>
   validateType (map mkComponent (getRefComponents ED)) (getDeclContext ED) tc
     = (ValidateError, tc1) \<Longrightarrow>
   bindExtensionDecl validateType ED tc = (invalidated ED, tc1)"
  by (simp add: bindExtensionDecl_def synthesizeComponents_start invalidated_def
      setExtendedType_def setInvalid_def)

lemma getAnyNominal_nominal:
  "is_NominalType ty \<or> is_UnboundGenericType ty \<Longrightarrow> \<exists>nominal. getAnyNominal ty = Some nominal"
  by (cases "getDesugaredType ty")
     (simp_all add: is_NominalType_def is_UnboundGenericType_def getAnyNominal_def)

lemma finishBinding_non_nominal:
  "\<not> is_NominalType ty \<Longrightarrow> \<not> is_UnboundGenericType ty \<Longrightarrow>
   finishBinding ty ED2 tc2 =
     (invalidated ED2, diagnose (non_nominal_extension (extRef ED2) False ty) tc2)"
  by (simp add: finishBinding_def invalidated_def setExtendedType_def setInvalid_def)

lemma finishBinding_nominal:
  "is_NominalType ty \<or> is_UnboundGenericType ty \<Longrightarrow> getAnyNominal ty = Some nominal \<Longrightarrow>
   finishBinding ty ED2 tc2 =
     (ED2\<lparr>getExtendedType := Some ty\<rparr>, addExtension nominal (extRef ED2) tc2)"
  by (auto simp: finishBinding_def setExtendedType_def Let_def)

lemma registered_addExtension:
  "Context tc2 = Context tc1 \<Longrightarrow> registered nominal ext tc1 (addExtension nominal ext tc2)"
  by (simp add: registered_def addExtension_def)

lemma bindExtensionDecl_outcome:
  assumes unbound: "getExtendedType ED = None"
    and r: "bindExtensionDecl validateType ED tc = (ED', tc')"
  shows "bindFailed ED' \<or> bindSucceeded validateType ED tc ED' tc'"
proof (cases "firstMetatypeRef (getRefComponents ED)")
  case (Some ref)
  then show ?thesis
    using bindExtensionDecl_metatype [OF unbound Some, of validateType tc] r
      bindFailed_invalidated by auto
next
  case None
  obtain res tc1 where v:
    "validateType (map mkComponent (getRefComponents ED)) (getDeclContext ED) tc = (res, tc1)"
    by fastforce
  show ?thesis
  proof (cases res)
    case ValidateError
    then show ?thesis
      using bindExtensionDecl_validate_error [where validateType = validateType, OF unbound None]
        v r bindFailed_invalidated by auto
  next
    case (Validated bound ty)
    note b = bindExtensionDecl_validated [where validateType = validateType, OF unbound None,
        of tc bound ty tc1]
    note c = checkComponents_result [where bound = bound and outer = None and ED = ED
        and tc = tc1 and ixs = "[0..<length (getRefComponents ED)]"]
    show ?thesis
    proof (cases "checkComponents bound [0..<length (getRefComponents ED)] None ED tc1")
      case (Return ED2 tc2)
      then show ?thesis using b c v Validated r by simp
    next
      case (Continue outer ED2 tc2)
      then have k: "extRef ED2 = extRef ED" "getExtendedType ED2 = None"
        "extInvalid ED2 = extInvalid ED" "Context tc2 = Context tc1"
        using c unbound by simp_all
      have fin: "(ED', tc') = finishBinding ty ED2 tc2"
        using b v Validated r Continue by simp
      show ?thesis
      proof (cases "is_NominalType ty \<or> is_UnboundGenericType ty")
        case False
        then have "ED' = invalidated ED2"
          using fin finishBinding_non_nominal [of ty ED2 tc2] by simp
        then show ?thesis using bindFailed_invalidated by simp
      next
        case True
        then obtain nominal where n: "getAnyNominal ty = Some nominal"
          using getAnyNominal_nominal by blast
        have e: "ED' = ED2\<lparr>getExtendedType := Some ty\<rparr>"
          "tc' = addExtension nominal (extRef ED2) tc2"
          using fin finishBinding_nominal [OF True n, of ED2 tc2] by simp_all
        have "registered nominal (extRef ED) tc1 tc'"
          using registered_addExtension [OF k(4), of nominal "extRef ED"] e(2) k(1) by simp
        moreover have "getExtendedType ED' = Some ty" "extInvalid ED' = extInvalid ED"
          using e(1) k(3) by simp_all
        ultimately have "bindSucceeded validateType ED tc ED' tc'"
          unfolding bindSucceeded_def using v Validated True n by blast
        then show ?thesis by simp
      qed
    qed
  qed
qed

lemma bindExtensionDecl_failure:
  assumes unbound: "getExtendedType ED = None"
    and fails: "bindingFails validateType ED tc"
  shows "bindFailed (fst (bindExtensionDecl validateType ED tc))"
proof (cases "firstMetatypeRef (getRefComponents ED)")
  case (Some ref)
  then show ?thesis
    using bindExtensionDecl_metatype [OF unbound Some, of validateType tc]
      bindFailed_invalidated by simp
next
  case None
  obtain res tc1 where v:
    "validateType (map mkComponent (getRefComponents ED)) (getDeclContext ED) tc = (res, tc1)"
    by fastforce
  show ?thesis
  proof (cases res)
    case ValidateError
    then show ?thesis
      using bindExtensionDecl_validate_error [where validateType = validateType, OF unbound None]
        v bindFailed_invalidated by simp
  next
    case (Validated bound ty)
    note b = bindExtensionDecl_validated [where validateType = validateType, OF unbound None,
        of tc bound ty tc1]
    note c = checkComponents_result [where bound = bound and outer = None and ED = ED
        and tc = tc1 and ixs = "[0..<length (getRefComponents ED)]"]
    have cause: "firstArityMismatch bound tc1 ED \<noteq> None \<or>
                 (\<not> is_NominalType ty \<and> \<not> is_UnboundGenericType ty)"
      using fails None v Validated by (simp add: bindingFails_def)
    show ?thesis
    proof (cases "checkComponents bound [0..<length (getRefComponents ED)] None ED tc1")
      case (Return ED2 tc2)
      then show ?thesis using b c v Validated by simp
    next
      case (Continue outer ED2 tc2)
      have "firstArityMismatch bound tc1 ED = None"
      proof (rule ccontr)
        assume "firstArityMismatch bound tc1 ED \<noteq> None"
        then obtain i where "i \<in> set [0..<length (getRefComponents ED)]"
          "arityMismatch bound tc1 ED i"
          by (auto simp: firstArityMismatch_def find_None_iff)
        then obtain k where k: "k < length (getRefComponents ED)"
          "arityMismatch bound tc1 ED k" "\<forall>j<k. \<not> arityMismatch bound tc1 ED j"
          using firstArityMismatch_Some [of i ED bound tc1] by auto
        show False
          using checkComponents_first_mismatch [OF k(1) k(3) k(2), of None] Continue by auto
      qed
      then have "\<not> is_NominalType ty" "\<not> is_UnboundGenericType ty" using cause by simp_all
      then have "finishBinding ty ED2 tc2 =
          (invalidated ED2, diagnose (non_nominal_extension (extRef ED2) False ty) tc2)"
        by (rule finishBinding_non_nominal)
      then show ?thesis using b v Validated Continue bindFailed_invalidated by simp
    qed
  qed
qed

lemma bindExtensionDecl_success:
  assumes unbound: "getExtendedType ED = None"
    and ok: "\<not> bindingFails validateType ED tc"
    and r: "bindExtensionDecl validateType ED tc = (ED', tc')"
  shows "bindSucceeded validateType ED tc ED' tc'"
proof -
  have "\<not> bindFailed ED'"
  proof -
    have None: "firstMetatypeRef (getRefComponents ED) = None"
      using ok by (simp add: bindingFails_def)
    obtain res tc1 where v:
      "validateType (map mkComponent (getRefComponents ED)) (getDeclContext ED) tc = (res, tc1)"
      by fastforce
    then obtain bound ty where res: "res = Validated bound ty"
      using ok by (cases res) (simp_all add: bindingFails_def)
    have nm: "firstArityMismatch bound tc1 ED = None"
      and ty: "is_NominalType ty \<or> is_UnboundGenericType ty"
      using ok v res by (auto simp: bindingFails_def)
    obtain nominal where n: "getAnyNominal ty = Some nominal"
      using getAnyNominal_nominal [OF ty] by blast
    have "\<forall>i \<in> set [0..<length (getRefComponents ED)]. \<not> arityMismatch bound tc1 ED i"
      using nm by (rule firstArityMismatch_None)
    then obtain outer ED2 tc2 where w:
      "checkComponents bound [0..<length (getRefComponents ED)] None ED tc1
         = Continue outer ED2 tc2"
      using checkComponents_no_mismatch [where outer = None] by (metis distinct_upt)
    have "bindExtensionDecl validateType ED tc = finishBinding ty ED2 tc2"
      using bindExtensionDecl_validated [where validateType = validateType, OF unbound None,
          of tc bound ty tc1] v res w by simp
    then have "ED' = ED2\<lparr>getExtendedType := Some ty\<rparr>"
      using r finishBinding_nominal [OF ty n, of ED2 tc2] by simp
    moreover have "ty \<noteq> ErrorType"
      using ty by (auto simp: is_NominalType_def is_UnboundGenericType_def)
    ultimately show ?thesis by (simp add: bindFailed_def)
  qed
  then show ?thesis using bindExtensionDecl_outcome [OF unbound r] by simp
qed

text \<open>
  C4. A call on an extension whose extended type is set changes nothing. A call on
  an unbound extension always sets the extended type: on every failure path
  (metatype component, validation error, arity mismatch, resolved type neither
  nominal nor unbound generic) to the error type together with the invalid mark; on
  the remaining path to the resolved nominal or unbound generic type, with the
  extension appended to the extension list of that type's declaration and the
  invalid mark untouched. Hence the extended type is never unset after a call, and a
  second call is a no-op.
\<close>

theorem C4_bindExtensionDecl_resolves_once:
  assumes r: "bindExtensionDecl validateType ED tc = (ED', tc')"
  shows "(getExtendedType ED \<noteq> None \<longrightarrow> ED' = ED \<and> tc' = tc)
       \<and> (getExtendedType ED = None \<and> bindingFails validateType ED tc \<longrightarrow> bindFailed ED')
       \<and> (getExtendedType ED = None \<and> \<not> bindingFails validateType ED tc \<longrightarrow>
            bindSucceeded validateType ED tc ED' tc')
       \<and> getExtendedType ED' \<noteq> None
       \<and> bindExtensionDecl validateType ED' tc' = (ED', tc')"
proof -
  have a: "getExtendedType ED \<noteq> None \<longrightarrow> ED' = ED \<and> tc' = tc"
    using r bindExtensionDecl_bound [of ED validateType tc] by auto
  have b: "getExtendedType ED = None \<and> bindingFails validateType ED tc \<longrightarrow> bindFailed ED'"
    using r bindExtensionDecl_failure [of ED validateType tc] by auto
  have c: "getExtendedType ED = None \<and> \<not> bindingFails validateType ED tc \<longrightarrow>
            bindSucceeded validateType ED tc ED' tc'"
    using r bindExtensionDecl_success [of ED validateType tc ED' tc'] by blast
  have d: "getExtendedType ED' \<noteq> None"
  proof (cases "getExtendedType ED")
    case (Some ty)
    then show ?thesis using a by simp
  next
    case None
    then have "bindFailed ED' \<or> bindSucceeded validateType ED tc ED' tc'"
      using r by (rule bindExtensionDecl_outcome)
    then show ?thesis by (auto simp: bindFailed_def bindSucceeded_def)
  qed
  have e: "bindExtensionDecl validateType ED' tc' = (ED', tc')"
    using d by (rule bindExtensionDecl_bound)
  show ?thesis using a b c d e by blast
qed

text \<open>
  C6 (amended). Extending a non-generic nominal type with an extension whose single
  path component supplies generic parameters produces the
  generic-parameters-for-non-generic-type diagnostic followed by the note at the
  extended type, and no arity diagnostic; the component's generic parameters are
  dropped, the invalid mark is left as it was, the extended type is set to the
  resolved type and the extension is appended to that type's extensions.
\<close>

theorem C6_non_generic_amended:
  assumes unbound: "getExtendedType ED = None"
    and single: "getRefComponents ED = [ref]"
    and gp: "GenericParams ref = Some gp"
    and valid: "validateType [mkComponent ref] (getDeclContext ED) tc
                  = (Validated bound extendedTy, tc1)"
    and td: "typeDeclOf (bound 0) = Some typeDecl"
    and nongeneric: "getGenericParams (nominalDecls (Context tc1) typeDecl) = None"
    and ty: "is_NominalType extendedTy \<or> is_UnboundGenericType extendedTy"
    and nominal: "getAnyNominal extendedTy = Some nominal"
  shows "bindExtensionDecl validateType ED tc =
           (ED\<lparr>getExtendedType := Some extendedTy,
               getRefComponents := [ref\<lparr>GenericParams := None\<rparr>]\<rparr>,
            addExtension nominal (extRef ED)
              (tc1\<lparr>Diags := Diags tc1 @
                 [extension_generic_params_for_non_generic_type (NameLoc ref)
                    (getDeclaredType (nominalDecls (Context tc1) typeDecl)),
                  extended_type_here typeDecl
                    (getDeclaredType (nominalDecls (Context tc1) typeDecl))]\<rparr>))"
proof -
  have nometa: "firstMetatypeRef (getRefComponents ED) = None"
    using single by (simp add: firstMetatypeRef_def)
  have v: "validateType (map mkComponent (getRefComponents ED)) (getDeclContext ED) tc
             = (Validated bound extendedTy, tc1)"
    using valid single by simp
  have walk: "checkComponents bound [0..<length (getRefComponents ED)] None ED tc1 =
      Continue None (ED\<lparr>getRefComponents := [ref\<lparr>GenericParams := None\<rparr>]\<rparr>)
        (tc1\<lparr>Diags := Diags tc1 @
                 [extension_generic_params_for_non_generic_type (NameLoc ref)
                    (getDeclaredType (nominalDecls (Context tc1) typeDecl)),
                  extended_type_here typeDecl
                    (getDeclaredType (nominalDecls (Context tc1) typeDecl))]\<rparr>)"
    using single gp td nongeneric
    by (simp add: checkComponent_def setRefGenericParams_def diagnose_def)
  show ?thesis
    using bindExtensionDecl_validated [where validateType = validateType, OF unbound nometa v]
      walk finishBinding_nominal [OF ty nominal]
    by simp
qed

theorem C10_metatype_witness:
  "getExtendedType fooMetatype = None \<and> (0::nat) < 1 \<and> 1 < length (getRefComponents fooMetatype) \<and>
   Name (getRefComponents fooMetatype ! 1) = Id_Type \<and>
   bindExtensionDecl (\<lambda>components dc tc. (ValidateError, diagnose (other_diagnostic 1) tc))
       fooMetatype binderTC =
     (fooMetatype\<lparr>getExtendedType := Some ErrorType, extInvalid := True\<rparr>,
      binderTC\<lparr>Diags := [extension_metatype (Some 14)]\<rparr>)"
proof -
  have h: "getExtendedType fooMetatype = None" "(0::nat) < 1"
    "1 < length (getRefComponents fooMetatype)"
    "Name (getRefComponents fooMetatype ! 1) = Id_Type"
    by (simp_all add: fooMetatype_def Id_Type_def)
  have f: "firstMetatypeRef (getRefComponents fooMetatype)
             = Some \<lparr>NameLoc = Some 14, Name = ''Type'', GenericParams = None\<rparr>"
    by (simp add: fooMetatype_def firstMetatypeRef_def Id_Type_def)
  show ?thesis
    using h f C10_metatype [OF h, of "\<lambda>components dc tc. (ValidateError, diagnose (other_diagnostic 1) tc)"
        binderTC]
    by (simp add: invalidated_def diagnose_def binderTC_def emptyTC_def)
qed

text \<open>
  C6 (as stated, refuted). \<open>extension Foo<T>\<close> for the non-generic struct \<open>Foo\<close>:
  the source emits two diagnostics (generic parameters for a non-generic type, and
  the note pointing at the extended type), none of them the arity diagnostic, drops
  the parameter list, does not mark the extension invalid and binds it to \<open>Foo\<close>.
\<close>

theorem C6_non_generic_counterexample:
  "getExtendedType fooWithT = None \<and>
   map (\<lambda>r. map_option sizeGP (GenericParams r)) (getRefComponents fooWithT) = [Some 1] \<and>
   getGenericParams (nominalDecls (Context binderTC) 1) = None \<and>
   bindExtensionDecl resolveNames fooWithT binderTC =
     (fooWithT\<lparr>getExtendedType := Some (NominalType 1),
        getRefComponents := [\<lparr>NameLoc = Some 10, Name = ''Foo'', GenericParams = None\<rparr>]\<rparr>,
      addExtension 1 100
        (binderTC\<lparr>Diags :=
           [extension_generic_params_for_non_generic_type (Some 10) (NominalType 1),
            extended_type_here 1 (NominalType 1)]\<rparr>)) \<and>
   \<not> extInvalid (fst (bindExtensionDecl resolveNames fooWithT binderTC)) \<and>
   getExtendedType (fst (bindExtensionDecl resolveNames fooWithT binderTC)) \<noteq> Some ErrorType \<and>
   length (Diags (snd (bindExtensionDecl resolveNames fooWithT binderTC))) = 2"
  by (simp add: concrete_defs bindExtensionDecl_def Id_Type_def checkComponent_def typeDeclOf_def
      setRefGenericParams_def setExtendedType_def diagnose_def is_NominalType_def
      getAnyNominal_def addExtension_def sizeGP_def finishBinding_def Let_def)

lemma pairWith3_resolved:
  "resolveNames (map mkComponent (getRefComponents pairWith3)) (getDeclContext pairWith3) binderTC
     = (Validated (\<lambda>i. BoundType (UnboundGenericType 2)) (UnboundGenericType 2), binderTC)"
  by (simp add: concrete_defs)

lemma pairWith2_resolved:
  "resolveNames (map mkComponent (getRefComponents pairWith2)) (getDeclContext pairWith2) binderTC
     = (Validated (\<lambda>i. BoundType (UnboundGenericType 2)) (UnboundGenericType 2), binderTC)"
  by (simp add: concrete_defs)

theorem C3_arity_mismatch_witness:
  "getExtendedType pairWith3 = None \<and> firstMetatypeRef (getRefComponents pairWith3) = None \<and>
   0 < length (getRefComponents pairWith3) \<and>
   arityMismatch (\<lambda>i. BoundType (UnboundGenericType 2)) binderTC pairWith3 0 \<and>
   bindExtensionDecl resolveNames pairWith3 binderTC =
     (pairWith3\<lparr>getExtendedType := Some ErrorType, extInvalid := True\<rparr>,
      binderTC\<lparr>Diags :=
        [extension_generic_wrong_number_of_parameters (Some 10) (UnboundGenericType 2) True 3 2]\<rparr>) \<and>
   getExtendedType pairWith2 = None \<and> firstMetatypeRef (getRefComponents pairWith2) = None \<and>
   firstArityMismatch (\<lambda>i. BoundType (UnboundGenericType 2)) binderTC pairWith2 = None \<and>
   (\<exists>outer ED' tc'.
      checkComponents (\<lambda>i. BoundType (UnboundGenericType 2))
        [0..<length (getRefComponents pairWith2)] None pairWith2 binderTC = Continue outer ED' tc' \<and>
      \<not> extInvalid ED' \<and> getExtendedType ED' = None)"
proof -
  have h3: "getExtendedType pairWith3 = None" "firstMetatypeRef (getRefComponents pairWith3) = None"
    by (simp_all add: concrete_defs firstMetatypeRef_def)
  have m3: "0 < length (getRefComponents pairWith3)"
    "arityMismatch (\<lambda>i. BoundType (UnboundGenericType 2)) binderTC pairWith3 0"
    by (simp_all add: concrete_defs arityMismatch_def typeDeclOf_def sizeGP_def)
  have f3: "firstArityMismatch (\<lambda>i. BoundType (UnboundGenericType 2)) binderTC pairWith3 = Some 0"
    using m3 by (simp add: firstArityMismatch_def concrete_defs)
  have d3: "arityDiagnostic (\<lambda>i. BoundType (UnboundGenericType 2)) binderTC pairWith3 0 =
    Some (extension_generic_wrong_number_of_parameters (Some 10) (UnboundGenericType 2) True 3 2)"
    by (simp add: arityDiagnostic_def concrete_defs typeDeclOf_def sizeGP_def)
  have h2: "getExtendedType pairWith2 = None" "firstMetatypeRef (getRefComponents pairWith2) = None"
    by (simp_all add: concrete_defs firstMetatypeRef_def)
  have f2: "firstArityMismatch (\<lambda>i. BoundType (UnboundGenericType 2)) binderTC pairWith2 = None"
    by (simp add: firstArityMismatch_def arityMismatch_def concrete_defs typeDeclOf_def sizeGP_def)
  have a: "bindExtensionDecl resolveNames pairWith3 binderTC =
     (pairWith3\<lparr>getExtendedType := Some ErrorType, extInvalid := True\<rparr>,
      binderTC\<lparr>Diags :=
        [extension_generic_wrong_number_of_parameters (Some 10) (UnboundGenericType 2) True 3 2]\<rparr>)"
    using C3_arity_mismatch [where validateType = resolveNames, OF h3 pairWith3_resolved, of 0]
      m3 f3 d3
    by (auto simp: invalidated_def diagnose_def binderTC_def emptyTC_def)
  have b: "\<exists>outer ED' tc'.
      checkComponents (\<lambda>i. BoundType (UnboundGenericType 2))
        [0..<length (getRefComponents pairWith2)] None pairWith2 binderTC = Continue outer ED' tc' \<and>
      \<not> extInvalid ED' \<and> getExtendedType ED' = None"
    using C3_arity_mismatch [where validateType = resolveNames, OF h2 pairWith2_resolved, of 0] f2
    by (simp add: pairWith2_def extensionOf_def)
  show ?thesis using h3 m3 a h2 f2 b by blast
qed

theorem C4_bindExtensionDecl_resolves_once_witness:
  "bindExtensionDecl resolveNames pairWith2 binderTC =
     (pairWith2\<lparr>getExtendedType := Some (UnboundGenericType 2),
        getRefComponents :=
          [\<lparr>NameLoc = Some 10, Name = ''Pair'',
            GenericParams = Some (GenericParamList [''X'', ''Y''] None)\<rparr>]\<rparr>,
      addExtension 2 100 binderTC) \<and>
   getExtendedType pairWith2 = None \<and> \<not> bindingFails resolveNames pairWith2 binderTC \<and>
   bindSucceeded resolveNames pairWith2 binderTC
     (fst (bindExtensionDecl resolveNames pairWith2 binderTC))
     (snd (bindExtensionDecl resolveNames pairWith2 binderTC)) \<and>
   getExtensions (nominalDecls (Context (snd (bindExtensionDecl resolveNames pairWith2 binderTC))) 2)
     = [100] \<and>
   bindExtensionDecl resolveNames (fst (bindExtensionDecl resolveNames pairWith2 binderTC))
       (snd (bindExtensionDecl resolveNames pairWith2 binderTC))
     = bindExtensionDecl resolveNames pairWith2 binderTC \<and>
   getExtendedType (extensionOf ''Alias'' None) = None \<and>
   bindingFails resolveNames (extensionOf ''Alias'' None) binderTC \<and>
   bindFailed (fst (bindExtensionDecl resolveNames (extensionOf ''Alias'' None) binderTC))"
proof -
  have r: "bindExtensionDecl resolveNames pairWith2 binderTC =
     (pairWith2\<lparr>getExtendedType := Some (UnboundGenericType 2),
        getRefComponents :=
          [\<lparr>NameLoc = Some 10, Name = ''Pair'',
            GenericParams = Some (GenericParamList [''X'', ''Y''] None)\<rparr>]\<rparr>,
      addExtension 2 100 binderTC)"
    by (simp add: concrete_defs bindExtensionDecl_def Id_Type_def checkComponent_def typeDeclOf_def
      setRefGenericParams_def setExtendedType_def diagnose_def is_NominalType_def
      is_UnboundGenericType_def getAnyNominal_def addExtension_def sizeGP_def
      setOuterParameters_def finishBinding_def Let_def)
  have u: "getExtendedType pairWith2 = None" by (simp add: concrete_defs)
  have ok: "\<not> bindingFails resolveNames pairWith2 binderTC"
    by (simp add: bindingFails_def firstMetatypeRef_def firstArityMismatch_def arityMismatch_def
        concrete_defs typeDeclOf_def sizeGP_def is_UnboundGenericType_def)
  have e: "getExtensions (nominalDecls (Context (addExtension 2 100 binderTC)) 2) = [100]"
    by (simp add: addExtension_def binderTC_def emptyContext_def)
  obtain A tcA where rA:
    "bindExtensionDecl resolveNames (extensionOf ''Alias'' None) binderTC = (A, tcA)"
    by fastforce
  have uA: "getExtendedType (extensionOf ''Alias'' None) = None" by (simp add: extensionOf_def)
  have fA: "bindingFails resolveNames (extensionOf ''Alias'' None) binderTC"
    by (simp add: bindingFails_def firstMetatypeRef_def firstArityMismatch_def arityMismatch_def
        concrete_defs typeDeclOf_def is_UnboundGenericType_def is_NominalType_def)
  show ?thesis
    using C4_bindExtensionDecl_resolves_once [OF r] C4_bindExtensionDecl_resolves_once [OF rA]
      r u ok e rA uA fA
    by simp
qed

theorem C6_non_generic_amended_witness:
  "getExtendedType fooWithT = None \<and>
   getRefComponents fooWithT =
     [\<lparr>NameLoc = Some 10, Name = ''Foo'', GenericParams = Some (GenericParamList [''T''] None)\<rparr>] \<and>
   typeDeclOf (BoundType (NominalType 1)) = Some 1 \<and>
   getGenericParams (nominalDecls (Context binderTC) 1) = None \<and>
   is_NominalType (NominalType 1) \<and> getAnyNominal (NominalType 1) = Some 1 \<and>
   bindExtensionDecl resolveNames fooWithT binderTC =
     (fooWithT\<lparr>getExtendedType := Some (NominalType 1),
        getRefComponents := [\<lparr>NameLoc = Some 10, Name = ''Foo'', GenericParams = None\<rparr>]\<rparr>,
      addExtension 1 100
        (binderTC\<lparr>Diags :=
           [extension_generic_params_for_non_generic_type (Some 10) (NominalType 1),
            extended_type_here 1 (NominalType 1)]\<rparr>))"
proof -
  have h: "getExtendedType fooWithT = None"
    "getRefComponents fooWithT =
     [\<lparr>NameLoc = Some 10, Name = ''Foo'', GenericParams = Some (GenericParamList [''T''] None)\<rparr>]"
    "GenericParams \<lparr>NameLoc = Some 10, Name = ''Foo'',
        GenericParams = Some (GenericParamList [''T''] None)\<rparr> = Some (GenericParamList [''T''] None)"
    "resolveNames [mkComponent \<lparr>NameLoc = Some 10, Name = ''Foo'',
        GenericParams = Some (GenericParamList [''T''] None)\<rparr>] (getDeclContext fooWithT) binderTC
       = (Validated (\<lambda>i. BoundType (NominalType 1)) (NominalType 1), binderTC)"
    "typeDeclOf ((\<lambda>i. BoundType (NominalType 1)) (0::nat)) = Some 1"
    "getGenericParams (nominalDecls (Context binderTC) 1) = None"
    "is_NominalType (NominalType 1) \<or> is_UnboundGenericType (NominalType 1)"
    "getAnyNominal (NominalType 1) = Some 1"
    by (simp_all add: concrete_defs typeDeclOf_def is_NominalType_def getAnyNominal_def)
  show ?thesis
    using h C6_non_generic_amended [where validateType = resolveNames, OF h]
    by (simp add: binderTC_def emptyTC_def emptyContext_def fooWithT_def extensionOf_def
        is_NominalType_def)
qed

section \<open>Theorems: the worklist scheduler\<close>

lemma extends_append: "extends xs ys \<Longrightarrow> ys = xs @ drop (length xs) ys"
  unfolding extends_def by (metis append_take_drop_id)

lemma grows_parts:
  assumes "grows tc tc'"
  shows "ExternalDefinitions (Context tc') =
           ExternalDefinitions (Context tc) @ grownExternal (growth tc tc')"
    and "definedFunctions tc' = definedFunctions tc @ grownFunctions (growth tc tc')"
    and "implicitlyDefinedFunctions tc' =
           implicitlyDefinedFunctions tc @ grownImplicit (growth tc tc')"
    and "ValidatedTypes tc' = ValidatedTypes tc @ grownValidated (growth tc tc')"
  using assms extends_append unfolding grows_def growth_def by auto

lemma trace_snoc:
  "checkedBodies (tr @ [e]) = checkedBodies tr @ bodyOf (fst e)"
  "processedExternals (tr @ [e]) = processedExternals tr @ externalOf (fst e)"
  "firstPassed (tr @ [e]) = firstPassed tr @ firstPassOf (fst e)"
  "capturesComputed (tr @ [e]) = capturesComputed tr @ capturesOf (fst e)"
  "appendedExternals (tr @ [e]) = appendedExternals tr @ grownExternal (snd e)"
  "appendedFunctions (tr @ [e]) = appendedFunctions tr @ grownFunctions (snd e)"
  "stagedFunctions (tr @ [e]) = stagedFunctions tr @ grownImplicit (snd e)"
  "pushedTypes (tr @ [e]) = pushedTypes tr @ grownValidated (snd e)"
  by (simp_all add: checkedBodies_def processedExternals_def firstPassed_def capturesComputed_def
      appendedExternals_def appendedFunctions_def stagedFunctions_def pushedTypes_def)

lemma schedInvD:
  assumes "schedInv tc0 cf ce (tc, tr)"
  shows "cf \<le> length (definedFunctions tc)"
    and "checkedBodies tr = take cf (definedFunctions tc)"
    and "LastCheckedExternalDefinition (Context tc0) \<le> ce"
    and "ce \<le> length (ExternalDefinitions (Context tc))"
    and "processedExternals tr =
           drop (LastCheckedExternalDefinition (Context tc0))
             (take ce (ExternalDefinitions (Context tc)))"
    and "mset (firstPassed tr) + mset (ValidatedTypes tc) =
           mset (ValidatedTypes tc0) + mset (pushedTypes tr)"
    and "mset (definedFunctions tc) + mset (implicitlyDefinedFunctions tc) =
           mset (definedFunctions tc0) + mset (implicitlyDefinedFunctions tc0) +
           mset (appendedFunctions tr) + mset (stagedFunctions tr)"
    and "mset (ExternalDefinitions (Context tc)) =
           mset (ExternalDefinitions (Context tc0)) + mset (appendedExternals tr)"
  using assms unfolding schedInv_def fst_conv snd_conv by blast+

lemma schedInvI:
  assumes "cf \<le> length (definedFunctions tc)"
    and "checkedBodies tr = take cf (definedFunctions tc)"
    and "LastCheckedExternalDefinition (Context tc0) \<le> ce"
    and "ce \<le> length (ExternalDefinitions (Context tc))"
    and "processedExternals tr =
           drop (LastCheckedExternalDefinition (Context tc0))
             (take ce (ExternalDefinitions (Context tc)))"
    and "mset (firstPassed tr) + mset (ValidatedTypes tc) =
           mset (ValidatedTypes tc0) + mset (pushedTypes tr)"
    and "mset (definedFunctions tc) + mset (implicitlyDefinedFunctions tc) =
           mset (definedFunctions tc0) + mset (implicitlyDefinedFunctions tc0) +
           mset (appendedFunctions tr) + mset (stagedFunctions tr)"
    and "mset (ExternalDefinitions (Context tc)) =
           mset (ExternalDefinitions (Context tc0)) + mset (appendedExternals tr)"
  shows "schedInv tc0 cf ce (tc, tr)"
  using assms unfolding schedInv_def fst_conv snd_conv by blast

text \<open>
  One collaborator call, on the state \<open>tc\<close> (the stack possibly popped before: \<open>V\<close>
  is the stack the invariant speaks of), moving the cursors from \<open>cf, ce\<close> to
  \<open>cf', ce'\<close>.
\<close>

lemma schedInv_step:
  assumes inv: "schedInv tc0 cf ce (tc\<lparr>ValidatedTypes := V\<rparr>, tr)" and g: "grows tc tc'"
    and body: "take cf' (definedFunctions tc) = take cf (definedFunctions tc) @ bodyOf c"
      "cf' \<le> length (definedFunctions tc)"
    and ext: "take ce' (ExternalDefinitions (Context tc)) =
               take ce (ExternalDefinitions (Context tc)) @ externalOf c"
      "ce \<le> ce'" "ce' \<le> length (ExternalDefinitions (Context tc))"
    and pop: "mset V = mset (ValidatedTypes tc) + mset (firstPassOf c)"
  shows "schedInv tc0 cf' ce' (tc', tr @ [(c, growth tc tc')])"
proof (rule schedInvI)
  note p = grows_parts [OF g]
  note d = schedInvD [OF inv]
  show "cf' \<le> length (definedFunctions tc')" using body(2) p(2) by simp
  show "checkedBodies (tr @ [(c, growth tc tc')]) = take cf' (definedFunctions tc')"
    using d(2) body p(2) by (simp add: trace_snoc)
  show "LastCheckedExternalDefinition (Context tc0) \<le> ce'" using d(3) ext(2) by simp
  show "ce' \<le> length (ExternalDefinitions (Context tc'))" using ext(3) p(1) by simp
  show "processedExternals (tr @ [(c, growth tc tc')]) =
        drop (LastCheckedExternalDefinition (Context tc0))
          (take ce' (ExternalDefinitions (Context tc')))"
  proof -
    have "take ce' (ExternalDefinitions (Context tc')) =
          take ce (ExternalDefinitions (Context tc)) @ externalOf c"
      using ext(1,3) p(1) by simp
    moreover have "LastCheckedExternalDefinition (Context tc0)
                     \<le> length (take ce (ExternalDefinitions (Context tc)))"
      using d(3,4) by simp
    ultimately show ?thesis using d(5) by (simp add: trace_snoc)
  qed
  show "mset (firstPassed (tr @ [(c, growth tc tc')])) + mset (ValidatedTypes tc') =
        mset (ValidatedTypes tc0) + mset (pushedTypes (tr @ [(c, growth tc tc')]))"
  proof -
    have "mset (firstPassed tr) + mset V = mset (ValidatedTypes tc0) + mset (pushedTypes tr)"
      using d(6) by simp
    then show ?thesis using pop p(4) by (simp add: trace_snoc ac_simps)
  qed
  show "mset (definedFunctions tc') + mset (implicitlyDefinedFunctions tc') =
        mset (definedFunctions tc0) + mset (implicitlyDefinedFunctions tc0) +
        mset (appendedFunctions (tr @ [(c, growth tc tc')])) +
        mset (stagedFunctions (tr @ [(c, growth tc tc')]))"
    using d(7) p(2,3) by (simp add: trace_snoc)
  show "mset (ExternalDefinitions (Context tc')) =
        mset (ExternalDefinitions (Context tc0)) +
        mset (appendedExternals (tr @ [(c, growth tc tc')]))"
    using d(8) p(1) by (simp add: trace_snoc)
qed

lemma grows_typeCheckAbstractFunctionBody:
  "appendOnly S \<Longrightarrow> grows tc (typeCheckAbstractFunctionBody S d tc)"
  and grows_handleExternalDecl: "appendOnly S \<Longrightarrow> grows tc (handleExternalDecl S d tc)"
  and grows_computeCaptures: "appendOnly S \<Longrightarrow> grows tc (computeCaptures S d tc)"
  and grows_typeCheckDecl: "appendOnly S \<Longrightarrow> grows tc (typeCheckDecl S d True tc)"
  unfolding appendOnly_def by blast+

lemma invoke_eq: "invoke c f (tc, tr) = (f tc, tr @ [(c, growth tc (f tc))])"
  by (simp add: invoke_def)

lemma grows_external_length:
  "grows tc tc' \<Longrightarrow>
   length (ExternalDefinitions (Context tc)) \<le> length (ExternalDefinitions (Context tc'))"
  using grows_parts(1) [of tc tc'] by simp

lemma grows_functions_length:
  "grows tc tc' \<Longrightarrow> length (definedFunctions tc) \<le> length (definedFunctions tc')"
  using grows_parts(2) [of tc tc'] by simp

lemma schedInv_external:
  assumes inv: "schedInv tc0 cf ce (tc, tr)" and g: "grows tc tc'"
    and lt: "ce < length (ExternalDefinitions (Context tc))"
    and c: "externalOf c = [ExternalDefinitions (Context tc) ! ce]" "bodyOf c = []"
      "firstPassOf c = []"
  shows "schedInv tc0 cf (ce + 1) (tc', tr @ [(c, growth tc tc')])"
proof -
  have inv': "schedInv tc0 cf ce (tc\<lparr>ValidatedTypes := ValidatedTypes tc\<rparr>, tr)"
    using inv by simp
  show ?thesis
  proof (rule schedInv_step [OF inv' g])
    show "take cf (definedFunctions tc) = take cf (definedFunctions tc) @ bodyOf c"
      using c(2) by simp
    show "cf \<le> length (definedFunctions tc)" using schedInvD(1) [OF inv] .
    show "take (ce + 1) (ExternalDefinitions (Context tc)) =
          take ce (ExternalDefinitions (Context tc)) @ externalOf c"
      using lt c(1) by (simp add: take_Suc_conv_app_nth)
    show "ce \<le> ce + 1" by simp
    show "ce + 1 \<le> length (ExternalDefinitions (Context tc))" using lt by simp
    show "mset (ValidatedTypes tc) = mset (ValidatedTypes tc) + mset (firstPassOf c)"
      using c(3) by simp
  qed
qed

lemma drainExternalDefinitions_inv:
  "schedInv tc0 cf ce st \<Longrightarrow> n \<le> length (ExternalDefinitions (Context (fst st))) \<Longrightarrow>
   drainExternalDefinitions S n ce st = Inr (ce', st') \<Longrightarrow> appendOnly S \<Longrightarrow>
   ce' = n \<and> schedInv tc0 cf n st'"
proof (induction S n ce st rule: drainExternalDefinitions.induct)
  case (1 S n ce st)
  note ao = "1.prems"(4)
  obtain tc tr where st: "st = (tc, tr)" by (cases st)
  show ?case
  proof (cases "ce = n")
    case True
    then show ?thesis using "1.prems" by simp
  next
    case False
    have ib: "\<not> (n < ce \<or> length (ExternalDefinitions (Context (fst st))) \<le> ce)"
      using "1.prems"(3) False by (auto split: if_splits)
    then have lt: "ce < length (ExternalDefinitions (Context tc))" using st by simp
    show ?thesis
    proof (cases "ExternalDefinitions (Context (fst st)) ! ce")
      case (AbstractFunctionDecl AFD)
      let ?f = "typeCheckAbstractFunctionBody S AFD"
      let ?st1 = "invoke (CheckExternalBody AFD) ?f st"
      have g: "grows tc (?f tc)" using ao by (rule grows_typeCheckAbstractFunctionBody)
      have i1: "schedInv tc0 cf (ce + 1) ?st1"
        unfolding st invoke_eq
        using schedInv_external [OF _ g lt, of tc0 cf tr "CheckExternalBody AFD"]
          "1.prems"(1) AbstractFunctionDecl st by simp
      have n1: "n \<le> length (ExternalDefinitions (Context (fst ?st1)))"
        using "1.prems"(2) grows_external_length [OF g] st by (simp add: invoke_eq)
      have r1: "drainExternalDefinitions S n (ce + 1) ?st1 = Inr (ce', st')"
        using "1.prems"(3) False ib AbstractFunctionDecl by simp
      show ?thesis
        using "1.IH"(1) [OF False ib AbstractFunctionDecl i1 n1 r1 ao] .
    next
      case (NominalDecl decl)
      let ?f = "handleExternalDecl S decl"
      let ?st1 = "invoke (HandleExternalDecl decl) ?f st"
      have g: "grows tc (?f tc)" using ao by (rule grows_handleExternalDecl)
      have i1: "schedInv tc0 cf (ce + 1) ?st1"
        unfolding st invoke_eq
        using schedInv_external [OF _ g lt, of tc0 cf tr "HandleExternalDecl decl"]
          "1.prems"(1) NominalDecl st by simp
      have n1: "n \<le> length (ExternalDefinitions (Context (fst ?st1)))"
        using "1.prems"(2) grows_external_length [OF g] st by (simp add: invoke_eq)
      have r1: "drainExternalDefinitions S n (ce + 1) ?st1 = Inr (ce', st')"
        using "1.prems"(3) False ib NominalDecl by simp
      show ?thesis
        using "1.IH"(2) [OF False ib NominalDecl i1 n1 r1 ao] .
    next
      case (OtherDecl decl)
      then show ?thesis using "1.prems"(3) False ib by simp
    qed
  qed
qed

lemma schedInv_body:
  assumes inv: "schedInv tc0 cf ce (tc, tr)" and g: "grows tc tc'"
    and lt: "cf < length (definedFunctions tc)"
  shows "schedInv tc0 (cf + 1) ce
           (tc', tr @ [(CheckBody (definedFunctions tc ! cf), growth tc tc')])"
proof -
  have inv': "schedInv tc0 cf ce (tc\<lparr>ValidatedTypes := ValidatedTypes tc\<rparr>, tr)"
    using inv by simp
  show ?thesis
  proof (rule schedInv_step [OF inv' g])
    show "take (cf + 1) (definedFunctions tc) =
          take cf (definedFunctions tc) @ bodyOf (CheckBody (definedFunctions tc ! cf))"
      using lt by (simp add: take_Suc_conv_app_nth)
    show "cf + 1 \<le> length (definedFunctions tc)" using lt by simp
    show "take ce (ExternalDefinitions (Context tc)) =
          take ce (ExternalDefinitions (Context tc)) @
          externalOf (CheckBody (definedFunctions tc ! cf))"
      by simp
    show "ce \<le> ce" by simp
    show "ce \<le> length (ExternalDefinitions (Context tc))" using schedInvD(4) [OF inv] .
    show "mset (ValidatedTypes tc) =
          mset (ValidatedTypes tc) + mset (firstPassOf (CheckBody (definedFunctions tc ! cf)))"
      by simp
  qed
qed

lemma schedInv_captures:
  assumes inv: "schedInv tc0 cf ce (tc, tr)" and g: "grows tc tc'"
  shows "schedInv tc0 cf ce (tc', tr @ [(ComputeCaptures d, growth tc tc')])"
proof -
  have inv': "schedInv tc0 cf ce (tc\<lparr>ValidatedTypes := ValidatedTypes tc\<rparr>, tr)"
    using inv by simp
  show ?thesis
  proof (rule schedInv_step [OF inv' g])
    show "take cf (definedFunctions tc) =
          take cf (definedFunctions tc) @ bodyOf (ComputeCaptures d)"
      by simp
    show "cf \<le> length (definedFunctions tc)" using schedInvD(1) [OF inv] .
    show "take ce (ExternalDefinitions (Context tc)) =
          take ce (ExternalDefinitions (Context tc)) @ externalOf (ComputeCaptures d)"
      by simp
    show "ce \<le> ce" by simp
    show "ce \<le> length (ExternalDefinitions (Context tc))" using schedInvD(4) [OF inv] .
    show "mset (ValidatedTypes tc) =
          mset (ValidatedTypes tc) + mset (firstPassOf (ComputeCaptures d))"
      by simp
  qed
qed

lemma schedInv_pop:
  assumes inv: "schedInv tc0 cf ce (tc, tr)" and ne: "ValidatedTypes tc \<noteq> []"
    and g: "grows (tc\<lparr>ValidatedTypes := butlast (ValidatedTypes tc)\<rparr>) tc'"
  shows "schedInv tc0 cf ce
           (tc', tr @ [(FirstPass (last (ValidatedTypes tc)),
                        growth (tc\<lparr>ValidatedTypes := butlast (ValidatedTypes tc)\<rparr>) tc')])"
proof -
  let ?popped = "tc\<lparr>ValidatedTypes := butlast (ValidatedTypes tc)\<rparr>"
  have inv': "schedInv tc0 cf ce (?popped\<lparr>ValidatedTypes := ValidatedTypes tc\<rparr>, tr)"
    using inv by simp
  show ?thesis
  proof (rule schedInv_step [OF inv' g])
    show "take cf (definedFunctions ?popped) =
          take cf (definedFunctions ?popped) @ bodyOf (FirstPass (last (ValidatedTypes tc)))"
      by simp
    show "cf \<le> length (definedFunctions ?popped)" using schedInvD(1) [OF inv] by simp
    show "take ce (ExternalDefinitions (Context ?popped)) =
          take ce (ExternalDefinitions (Context ?popped)) @
          externalOf (FirstPass (last (ValidatedTypes tc)))"
      by simp
    show "ce \<le> ce" by simp
    show "ce \<le> length (ExternalDefinitions (Context ?popped))"
      using schedInvD(4) [OF inv] by simp
    have "mset (ValidatedTypes tc) =
          mset (butlast (ValidatedTypes tc) @ [last (ValidatedTypes tc)])"
      using ne by simp
    then show "mset (ValidatedTypes tc) =
          mset (ValidatedTypes ?popped) + mset (firstPassOf (FirstPass (last (ValidatedTypes tc))))"
      by simp
  qed
qed

lemma schedInv_insert:
  assumes inv: "schedInv tc0 cf ce (tc, tr)"
  shows "schedInv tc0 cf ce (insertImplicitlyDefinedFunctions tc, tr)"
proof (rule schedInvI)
  note d = schedInvD [OF inv]
  let ?tc = "insertImplicitlyDefinedFunctions tc"
  have df: "definedFunctions ?tc = definedFunctions tc @ implicitlyDefinedFunctions tc"
    and im: "implicitlyDefinedFunctions ?tc = []"
    and vt: "ValidatedTypes ?tc = ValidatedTypes tc"
    and ex: "ExternalDefinitions (Context ?tc) = ExternalDefinitions (Context tc)"
    by (simp_all add: insertImplicitlyDefinedFunctions_def)
  show "cf \<le> length (definedFunctions ?tc)" using d(1) df by simp
  show "checkedBodies tr = take cf (definedFunctions ?tc)" using d(1,2) df by simp
  show "LastCheckedExternalDefinition (Context tc0) \<le> ce" using d(3) .
  show "ce \<le> length (ExternalDefinitions (Context ?tc))" using d(4) ex by simp
  show "processedExternals tr =
        drop (LastCheckedExternalDefinition (Context tc0))
          (take ce (ExternalDefinitions (Context ?tc)))"
    using d(5) ex by simp
  show "mset (firstPassed tr) + mset (ValidatedTypes ?tc) =
        mset (ValidatedTypes tc0) + mset (pushedTypes tr)"
    using d(6) vt by simp
  show "mset (definedFunctions ?tc) + mset (implicitlyDefinedFunctions ?tc) =
        mset (definedFunctions tc0) + mset (implicitlyDefinedFunctions tc0) +
        mset (appendedFunctions tr) + mset (stagedFunctions tr)"
    using d(7) df im by simp
  show "mset (ExternalDefinitions (Context ?tc)) =
        mset (ExternalDefinitions (Context tc0)) + mset (appendedExternals tr)"
    using d(8) ex by simp
qed

lemma drainDefinedFunctions_inv:
  "schedInv tc0 cf ce st \<Longrightarrow> n \<le> length (definedFunctions (fst st)) \<Longrightarrow>
   drainDefinedFunctions S n cf st = Inr (cf', st') \<Longrightarrow> appendOnly S \<Longrightarrow>
   cf' = n \<and> schedInv tc0 n ce st'"
proof (induction S n cf st rule: drainDefinedFunctions.induct)
  case (1 S n cf st)
  note ao = "1.prems"(4)
  obtain tc tr where st: "st = (tc, tr)" by (cases st)
  show ?case
  proof (cases "cf = n")
    case True
    then show ?thesis using "1.prems" by simp
  next
    case False
    have ib: "\<not> (n < cf \<or> length (definedFunctions (fst st)) \<le> cf)"
      using "1.prems"(3) False by (auto split: if_splits)
    then have lt: "cf < length (definedFunctions tc)" using st by simp
    let ?AFD = "definedFunctions (fst st) ! cf"
    let ?f = "typeCheckAbstractFunctionBody S ?AFD"
    let ?st1 = "invoke (CheckBody ?AFD) ?f st"
    have g: "grows tc (?f tc)" using ao by (rule grows_typeCheckAbstractFunctionBody)
    have i1: "schedInv tc0 (cf + 1) ce ?st1"
      unfolding st invoke_eq
      using schedInv_body [OF _ g lt, of tc0 ce tr] "1.prems"(1) st by simp
    have n1: "n \<le> length (definedFunctions (fst ?st1))"
      using "1.prems"(2) grows_functions_length [OF g] st by (simp add: invoke_eq)
    have r1: "drainDefinedFunctions S n (cf + 1) ?st1 = Inr (cf', st')"
      using "1.prems"(3) False ib by (simp add: Let_def)
    show ?thesis
      using "1.IH" [OF False ib refl i1 n1 r1 ao] .
  qed
qed

lemma computeCapturesLoop_inv:
  "schedInv tc0 cf ce st \<Longrightarrow> computeCapturesLoop S prev i st = Inr st' \<Longrightarrow> appendOnly S \<Longrightarrow>
   schedInv tc0 cf ce st'"
proof (induction S prev i st rule: computeCapturesLoop.induct)
  case (1 S prev i st)
  note ao = "1.prems"(3)
  obtain tc tr where st: "st = (tc, tr)" by (cases st)
  show ?case
  proof (cases "i > prev")
    case False
    then show ?thesis using "1.prems" by simp
  next
    case True
    have ib: "\<not> length (definedFunctions (fst st)) \<le> i - 1"
      using "1.prems"(2) True by (auto split: if_splits)
    let ?FD = "definedFunctions (fst st) ! (i - 1)"
    let ?f = "computeCaptures S ?FD"
    let ?st1 = "invoke (ComputeCaptures ?FD) ?f st"
    have g: "grows tc (?f tc)" using ao by (rule grows_computeCaptures)
    have i1: "schedInv tc0 cf ce ?st1"
      unfolding st invoke_eq
      using schedInv_captures [OF _ g, of tc0 cf ce tr] "1.prems"(1) st by simp
    have r1: "computeCapturesLoop S prev (i - 1) ?st1 = Inr st'"
      using "1.prems"(2) True ib by (simp add: Let_def)
    show ?thesis
      using "1.IH" [OF True ib refl i1 r1 ao] .
  qed
qed

lemma drainValidatedTypes_inv:
  assumes r: "drainValidatedTypes S st = Some st'"
  shows "appendOnly S \<longrightarrow> schedInv tc0 cf ce st \<longrightarrow>
         schedInv tc0 cf ce st' \<and> ValidatedTypes (fst st') = []"
proof (rule drainValidatedTypes.raw_induct
    [where P = "\<lambda>S st st'. appendOnly S \<longrightarrow> schedInv tc0 cf ce st \<longrightarrow>
                  schedInv tc0 cf ce st' \<and> ValidatedTypes (fst st') = []", OF _ r])
  fix drain :: "Sema \<Rightarrow> TypeChecker \<times> Trace \<Rightarrow> (TypeChecker \<times> Trace) option"
  fix S st y
  assume IH: "\<And>S st y. drain S st = Some y \<Longrightarrow>
                 appendOnly S \<longrightarrow> schedInv tc0 cf ce st \<longrightarrow>
                 schedInv tc0 cf ce y \<and> ValidatedTypes (fst y) = []"
  assume body: "(if ValidatedTypes (fst st) \<noteq> [] then
        (let nominal = last (ValidatedTypes (fst st));
             popped = (fst st)\<lparr>ValidatedTypes := butlast (ValidatedTypes (fst st))\<rparr>
         in drain S
              (invoke (FirstPass nominal) (typeCheckDecl S nominal True) (popped, snd st)))
      else Some st) = Some y"
  obtain tc tr where st: "st = (tc, tr)" by (cases st)
  show "appendOnly S \<longrightarrow> schedInv tc0 cf ce st \<longrightarrow>
        schedInv tc0 cf ce y \<and> ValidatedTypes (fst y) = []"
  proof (intro impI)
    assume ao: "appendOnly S" and inv: "schedInv tc0 cf ce st"
    show "schedInv tc0 cf ce y \<and> ValidatedTypes (fst y) = []"
    proof (cases "ValidatedTypes tc = []")
      case True
      then have "y = (tc, tr)" using body st by simp
      then show ?thesis using True inv st by simp
    next
      case False
      let ?nominal = "last (ValidatedTypes tc)"
      let ?popped = "tc\<lparr>ValidatedTypes := butlast (ValidatedTypes tc)\<rparr>"
      let ?f = "typeCheckDecl S ?nominal True"
      let ?st1 = "invoke (FirstPass ?nominal) ?f (?popped, tr)"
      have g: "grows ?popped (?f ?popped)" using ao by (rule grows_typeCheckDecl)
      have i1: "schedInv tc0 cf ce ?st1"
        unfolding invoke_eq using schedInv_pop [OF _ False g] inv st by simp
      have r1: "drain S ?st1 = Some y" using body False st by (simp add: Let_def)
      show ?thesis using IH [OF r1] ao i1 by simp
    qed
  qed
qed

lemma schedulerIteration_inv:
  assumes it: "schedulerIteration S cf ce st = Some (Inr (cf', ce', tc', tr'))"
    and ao: "appendOnly S" and inv: "schedInv tc0 cf ce st"
  shows "schedInv tc0 cf' ce' (tc', tr') \<and> ValidatedTypes tc' = [] \<and>
         implicitlyDefinedFunctions tc' = []"
proof -
  let ?nE = "length (ExternalDefinitions (Context (fst st)))"
  obtain ce1 st1 where e: "drainExternalDefinitions S ?nE ce st = Inr (ce1, st1)"
    using it unfolding schedulerIteration_def
    by (cases "drainExternalDefinitions S ?nE ce st") auto
  have i1: "schedInv tc0 cf ce1 st1"
    using drainExternalDefinitions_inv [OF inv _ e ao] by simp
  let ?nF = "length (definedFunctions (fst st1))"
  obtain cf2 st2 where f: "drainDefinedFunctions S ?nF cf st1 = Inr (cf2, st2)"
    using it e unfolding schedulerIteration_def
    by (cases "drainDefinedFunctions S ?nF cf st1") (auto simp: Let_def)
  have i2: "schedInv tc0 cf2 ce1 st2"
    using drainDefinedFunctions_inv [OF i1 _ f ao] by simp
  obtain st3 where c: "computeCapturesLoop S cf cf2 st2 = Inr st3"
    using it e f unfolding schedulerIteration_def
    by (cases "computeCapturesLoop S cf cf2 st2") (auto simp: Let_def)
  have i3: "schedInv tc0 cf2 ce1 st3"
    using computeCapturesLoop_inv [OF i2 c ao] .
  obtain st4 where v: "drainValidatedTypes S st3 = Some st4"
    using it e f c unfolding schedulerIteration_def
    by (cases "drainValidatedTypes S st3") (auto simp: Let_def)
  have i4: "schedInv tc0 cf2 ce1 st4" and v4: "ValidatedTypes (fst st4) = []"
    using drainValidatedTypes_inv [OF v, of tc0 cf2 ce1] ao i3 by simp_all
  let ?tc5 = "insertImplicitlyDefinedFunctions (fst st4)"
  have i5: "schedInv tc0 cf2 ce1 (?tc5, snd st4)"
    using schedInv_insert [of tc0 cf2 ce1 "fst st4" "snd st4"] i4 by simp
  have e5: "ValidatedTypes ?tc5 = []" "implicitlyDefinedFunctions ?tc5 = []"
    using v4 by (simp_all add: insertImplicitlyDefinedFunctions_def)
  have "cf' = cf2" "ce' = ce1" "tc' = ?tc5" "tr' = snd st4"
    using it e f c v unfolding schedulerIteration_def by (simp_all add: Let_def)
  then show ?thesis using i5 e5 by simp
qed

lemma schedulerLoop_inv:
  assumes r: "schedulerLoop S cf ce st = Some res"
  shows "appendOnly S \<longrightarrow> schedInv tc0 cf ce st \<longrightarrow>
         (\<forall>cf' ce' tc' tr'. res = Inr (cf', ce', tc', tr') \<longrightarrow>
            schedInv tc0 cf' ce' (tc', tr') \<and> drained cf' ce' tc')"
proof (rule schedulerLoop.raw_induct
    [where P = "\<lambda>S cf ce st res. appendOnly S \<longrightarrow> schedInv tc0 cf ce st \<longrightarrow>
         (\<forall>cf' ce' tc' tr'. res = Inr (cf', ce', tc', tr') \<longrightarrow>
            schedInv tc0 cf' ce' (tc', tr') \<and> drained cf' ce' tc')", OF _ r])
  fix loop :: "Sema \<Rightarrow> nat \<Rightarrow> nat \<Rightarrow> TypeChecker \<times> Trace \<Rightarrow>
     (Fatal + nat \<times> nat \<times> TypeChecker \<times> Trace) option"
  fix S cf ce st res
  assume IH: "\<And>S cf ce st res. loop S cf ce st = Some res \<Longrightarrow>
         appendOnly S \<longrightarrow> schedInv tc0 cf ce st \<longrightarrow>
         (\<forall>cf' ce' tc' tr'. res = Inr (cf', ce', tc', tr') \<longrightarrow>
            schedInv tc0 cf' ce' (tc', tr') \<and> drained cf' ce' tc')"
  assume body: "(case schedulerIteration S cf ce st of
        None \<Rightarrow> None
      | Some (Inl fatal) \<Rightarrow> Some (Inl fatal)
      | Some (Inr (currentFunctionIdx', currentExternalDef', tc, trace)) \<Rightarrow>
          if currentFunctionIdx' < length (definedFunctions tc) \<or>
             currentExternalDef' < length (ExternalDefinitions (Context tc))
          then loop S currentFunctionIdx' currentExternalDef' (tc, trace)
          else Some (Inr (currentFunctionIdx', currentExternalDef', tc, trace))) = Some res"
  show "appendOnly S \<longrightarrow> schedInv tc0 cf ce st \<longrightarrow>
         (\<forall>cf' ce' tc' tr'. res = Inr (cf', ce', tc', tr') \<longrightarrow>
            schedInv tc0 cf' ce' (tc', tr') \<and> drained cf' ce' tc')"
  proof (intro impI allI)
    fix cf' ce' tc' tr'
    assume ao: "appendOnly S" and inv: "schedInv tc0 cf ce st"
      and res: "res = Inr (cf', ce', tc', tr')"
    obtain cf2 ce1 tc5 tr5 where
      it: "schedulerIteration S cf ce st = Some (Inr (cf2, ce1, tc5, tr5))"
      using body res
      by (cases "schedulerIteration S cf ce st") (auto split: sum.splits)
    have i5: "schedInv tc0 cf2 ce1 (tc5, tr5)"
      and e5: "ValidatedTypes tc5 = []" "implicitlyDefinedFunctions tc5 = []"
      using schedulerIteration_inv [OF it ao inv] by simp_all
    show "schedInv tc0 cf' ce' (tc', tr') \<and> drained cf' ce' tc'"
    proof (cases "cf2 < length (definedFunctions tc5) \<or>
                  ce1 < length (ExternalDefinitions (Context tc5))")
      case True
      then have "loop S cf2 ce1 (tc5, tr5) = Some res" using body it by simp
      then show ?thesis using IH ao i5 res by blast
    next
      case False
      then have "res = Inr (cf2, ce1, tc5, tr5)" using body it by simp
      then have eq: "cf' = cf2" "ce' = ce1" "tc' = tc5" "tr' = tr5" using res by simp_all
      have "cf2 \<le> length (definedFunctions tc5)"
        "ce1 \<le> length (ExternalDefinitions (Context tc5))"
        using schedInvD(1,4) [OF i5] by simp_all
      then have "drained cf2 ce1 tc5" using False e5 by (simp add: drained_def)
      then show ?thesis using i5 eq by simp
    qed
  qed
qed

lemma extends_refl: "extends xs xs"
  by (simp add: extends_def)

lemma extends_length: "extends xs ys \<Longrightarrow> length xs \<le> length ys"
  using extends_append [of xs ys] by (metis length_append le_add1)

lemma extends_trans:
  assumes "extends xs ys" "extends ys zs"
  shows "extends xs zs"
proof -
  obtain a where a: "ys = xs @ a" using extends_append [OF assms(1)] by blast
  obtain b where b: "zs = ys @ b" using extends_append [OF assms(2)] by blast
  show ?thesis unfolding extends_def a b by simp
qed

lemma extends_take: "extends xs ys \<Longrightarrow> n \<le> length xs \<Longrightarrow> take n ys = take n xs"
  using extends_append [of xs ys] by (metis take_append diff_is_0_eq take_0 append_Nil2)

lemma grows_functions: "grows tc tc' \<Longrightarrow> extends (definedFunctions tc) (definedFunctions tc')"
  by (simp add: grows_def)

lemma drainExternalDefinitions_trace:
  "drainExternalDefinitions S n ce st = Inr (ce', st') \<Longrightarrow> appendOnly S \<Longrightarrow>
   \<exists>new. map fst (snd st') = map fst (snd st) @ new \<and> list_all isExternalCall new \<and>
         extends (definedFunctions (fst st)) (definedFunctions (fst st'))"
proof (induction S n ce st rule: drainExternalDefinitions.induct)
  case (1 S n ce st)
  note ao = "1.prems"(2)
  obtain tc tr where st: "st = (tc, tr)" by (cases st)
  show ?case
  proof (cases "ce = n")
    case True
    then have "st' = st" using "1.prems"(1) by simp
    then show ?thesis using extends_refl by simp
  next
    case False
    have ib: "\<not> (n < ce \<or> length (ExternalDefinitions (Context (fst st))) \<le> ce)"
      using "1.prems"(1) False by (auto split: if_splits)
    show ?thesis
    proof (cases "ExternalDefinitions (Context (fst st)) ! ce")
      case (AbstractFunctionDecl AFD)
      let ?f = "typeCheckAbstractFunctionBody S AFD"
      let ?st1 = "invoke (CheckExternalBody AFD) ?f st"
      have g: "grows tc (?f tc)" using ao by (rule grows_typeCheckAbstractFunctionBody)
      have r1: "drainExternalDefinitions S n (ce + 1) ?st1 = Inr (ce', st')"
        using "1.prems"(1) False ib AbstractFunctionDecl by simp
      obtain new where n: "map fst (snd st') = map fst (snd ?st1) @ new"
        "list_all isExternalCall new"
        "extends (definedFunctions (fst ?st1)) (definedFunctions (fst st'))"
        using "1.IH"(1) [OF False ib AbstractFunctionDecl r1 ao] by blast
      have "map fst (snd st') = map fst (snd st) @ (CheckExternalBody AFD # new)"
        using n(1) st by (simp add: invoke_eq)
      moreover have "list_all isExternalCall (CheckExternalBody AFD # new)" using n(2) by simp
      moreover have "extends (definedFunctions (fst st)) (definedFunctions (fst st'))"
        using extends_trans [OF grows_functions [OF g]] n(3) st by (simp add: invoke_eq)
      ultimately show ?thesis by blast
    next
      case (NominalDecl decl)
      let ?f = "handleExternalDecl S decl"
      let ?st1 = "invoke (HandleExternalDecl decl) ?f st"
      have g: "grows tc (?f tc)" using ao by (rule grows_handleExternalDecl)
      have r1: "drainExternalDefinitions S n (ce + 1) ?st1 = Inr (ce', st')"
        using "1.prems"(1) False ib NominalDecl by simp
      obtain new where n: "map fst (snd st') = map fst (snd ?st1) @ new"
        "list_all isExternalCall new"
        "extends (definedFunctions (fst ?st1)) (definedFunctions (fst st'))"
        using "1.IH"(2) [OF False ib NominalDecl r1 ao] by blast
      have "map fst (snd st') = map fst (snd st) @ (HandleExternalDecl decl # new)"
        using n(1) st by (simp add: invoke_eq)
      moreover have "list_all isExternalCall (HandleExternalDecl decl # new)" using n(2) by simp
      moreover have "extends (definedFunctions (fst st)) (definedFunctions (fst st'))"
        using extends_trans [OF grows_functions [OF g]] n(3) st by (simp add: invoke_eq)
      ultimately show ?thesis by blast
    next
      case (OtherDecl decl)
      then show ?thesis using "1.prems"(1) False ib by simp
    qed
  qed
qed

lemma drainDefinedFunctions_trace:
  "drainDefinedFunctions S n cf st = Inr (cf', st') \<Longrightarrow> appendOnly S \<Longrightarrow>
   n \<le> length (definedFunctions (fst st)) \<Longrightarrow> cf \<le> n \<Longrightarrow>
   cf' = n \<and>
   map fst (snd st') =
     map fst (snd st) @ map CheckBody (drop cf (take n (definedFunctions (fst st)))) \<and>
   extends (definedFunctions (fst st)) (definedFunctions (fst st'))"
proof (induction S n cf st rule: drainDefinedFunctions.induct)
  case (1 S n cf st)
  note ao = "1.prems"(2)
  obtain tc tr where st: "st = (tc, tr)" by (cases st)
  show ?case
  proof (cases "cf = n")
    case True
    then have "st' = st" "cf' = n" using "1.prems"(1) by simp_all
    then show ?thesis using True extends_refl by simp
  next
    case False
    have ib: "\<not> (n < cf \<or> length (definedFunctions (fst st)) \<le> cf)"
      using "1.prems"(1) False by (auto split: if_splits)
    then have lt: "cf < n" using False by simp
    let ?AFD = "definedFunctions (fst st) ! cf"
    let ?f = "typeCheckAbstractFunctionBody S ?AFD"
    let ?st1 = "invoke (CheckBody ?AFD) ?f st"
    have g: "grows tc (?f tc)" using ao by (rule grows_typeCheckAbstractFunctionBody)
    have ex: "extends (definedFunctions (fst st)) (definedFunctions (fst ?st1))"
      using grows_functions [OF g] st by (simp add: invoke_eq)
    have n1: "n \<le> length (definedFunctions (fst ?st1))"
      using "1.prems"(3) extends_length [OF ex] by simp
    have r1: "drainDefinedFunctions S n (cf + 1) ?st1 = Inr (cf', st')"
      using "1.prems"(1) False ib by (simp add: Let_def)
    have ih: "cf' = n"
      "map fst (snd st') =
         map fst (snd ?st1) @ map CheckBody (drop (cf + 1) (take n (definedFunctions (fst ?st1))))"
      "extends (definedFunctions (fst ?st1)) (definedFunctions (fst st'))"
      using "1.IH" [OF False ib refl r1 ao n1] lt by simp_all
    have tk: "take n (definedFunctions (fst ?st1)) = take n (definedFunctions (fst st))"
      using extends_take [OF ex "1.prems"(3)] .
    have "cf < length (take n (definedFunctions (fst st)))" using lt "1.prems"(3) by simp
    then have "drop cf (take n (definedFunctions (fst st))) =
        take n (definedFunctions (fst st)) ! cf #
        drop (Suc cf) (take n (definedFunctions (fst st)))"
      by (rule Cons_nth_drop_Suc [symmetric])
    then have dr: "drop cf (take n (definedFunctions (fst st))) =
        ?AFD # drop (cf + 1) (take n (definedFunctions (fst st)))"
      using lt by simp
    have "map fst (snd st') =
      map fst (snd st) @ map CheckBody (drop cf (take n (definedFunctions (fst st))))"
      using ih(2) st unfolding tk dr by (simp add: invoke_eq)
    then show ?thesis using ih(1) extends_trans [OF ex ih(3)] by simp
  qed
qed

lemma computeCapturesLoop_trace:
  "computeCapturesLoop S prev i st = Inr st' \<Longrightarrow> appendOnly S \<Longrightarrow>
   i \<le> length (definedFunctions (fst st)) \<Longrightarrow>
   map fst (snd st') =
     map fst (snd st) @
     map ComputeCaptures (rev (drop prev (take i (definedFunctions (fst st))))) \<and>
   extends (definedFunctions (fst st)) (definedFunctions (fst st'))"
proof (induction S prev i st rule: computeCapturesLoop.induct)
  case (1 S prev i st)
  note ao = "1.prems"(2)
  obtain tc tr where st: "st = (tc, tr)" by (cases st)
  show ?case
  proof (cases "i > prev")
    case False
    then have "st' = st" using "1.prems"(1) by simp
    then show ?thesis using False extends_refl by simp
  next
    case True
    have ib: "\<not> length (definedFunctions (fst st)) \<le> i - 1"
      using "1.prems"(1) True by (auto split: if_splits)
    let ?DF = "definedFunctions (fst st)"
    let ?FD = "?DF ! (i - 1)"
    let ?f = "computeCaptures S ?FD"
    let ?st1 = "invoke (ComputeCaptures ?FD) ?f st"
    have g: "grows tc (?f tc)" using ao by (rule grows_computeCaptures)
    have ex: "extends ?DF (definedFunctions (fst ?st1))"
      using grows_functions [OF g] st by (simp add: invoke_eq)
    have n1: "i - 1 \<le> length (definedFunctions (fst ?st1))"
      using "1.prems"(3) extends_length [OF ex] by simp
    have r1: "computeCapturesLoop S prev (i - 1) ?st1 = Inr st'"
      using "1.prems"(1) True ib by (simp add: Let_def)
    have ih: "map fst (snd st') =
         map fst (snd ?st1) @
         map ComputeCaptures (rev (drop prev (take (i - 1) (definedFunctions (fst ?st1)))))"
      "extends (definedFunctions (fst ?st1)) (definedFunctions (fst st'))"
      using "1.IH" [OF True ib refl r1 ao n1] by simp_all
    have tk: "take (i - 1) (definedFunctions (fst ?st1)) = take (i - 1) ?DF"
      using extends_take [OF ex] "1.prems"(3) by simp
    have "take (Suc (i - 1)) ?DF = take (i - 1) ?DF @ [?FD]"
      using ib by (simp add: take_Suc_conv_app_nth)
    then have "take i ?DF = take (i - 1) ?DF @ [?FD]" using True by simp
    moreover have "prev \<le> length (take (i - 1) ?DF)" using True ib by simp
    ultimately have "rev (drop prev (take i ?DF)) = ?FD # rev (drop prev (take (i - 1) ?DF))"
      by simp
    then have "map fst (snd st') =
      map fst (snd st) @ map ComputeCaptures (rev (drop prev (take i ?DF)))"
      using ih(1) st unfolding tk by (simp add: invoke_eq)
    then show ?thesis using extends_trans [OF ex ih(2)] by simp
  qed
qed

lemma drainValidatedTypes_trace:
  assumes r: "drainValidatedTypes S st = Some st'"
  shows "appendOnly S \<longrightarrow>
         (\<exists>new. map fst (snd st') = map fst (snd st) @ new \<and> list_all isFirstPassCall new \<and>
               extends (definedFunctions (fst st)) (definedFunctions (fst st')))"
proof (rule drainValidatedTypes.raw_induct
    [where P = "\<lambda>S st st'. appendOnly S \<longrightarrow>
         (\<exists>new. map fst (snd st') = map fst (snd st) @ new \<and> list_all isFirstPassCall new \<and>
               extends (definedFunctions (fst st)) (definedFunctions (fst st')))", OF _ r])
  fix drain :: "Sema \<Rightarrow> TypeChecker \<times> Trace \<Rightarrow> (TypeChecker \<times> Trace) option"
  fix S st y
  assume IH: "\<And>S st y. drain S st = Some y \<Longrightarrow> appendOnly S \<longrightarrow>
         (\<exists>new. map fst (snd y) = map fst (snd st) @ new \<and> list_all isFirstPassCall new \<and>
               extends (definedFunctions (fst st)) (definedFunctions (fst y)))"
  assume body: "(if ValidatedTypes (fst st) \<noteq> [] then
        (let nominal = last (ValidatedTypes (fst st));
             popped = (fst st)\<lparr>ValidatedTypes := butlast (ValidatedTypes (fst st))\<rparr>
         in drain S
              (invoke (FirstPass nominal) (typeCheckDecl S nominal True) (popped, snd st)))
      else Some st) = Some y"
  obtain tc tr where st: "st = (tc, tr)" by (cases st)
  show "appendOnly S \<longrightarrow>
         (\<exists>new. map fst (snd y) = map fst (snd st) @ new \<and> list_all isFirstPassCall new \<and>
               extends (definedFunctions (fst st)) (definedFunctions (fst y)))"
  proof
    assume ao: "appendOnly S"
    show "\<exists>new. map fst (snd y) = map fst (snd st) @ new \<and> list_all isFirstPassCall new \<and>
               extends (definedFunctions (fst st)) (definedFunctions (fst y))"
    proof (cases "ValidatedTypes tc = []")
      case True
      then have "y = st" using body st by simp
      then show ?thesis using extends_refl by simp
    next
      case False
      let ?nominal = "last (ValidatedTypes tc)"
      let ?popped = "tc\<lparr>ValidatedTypes := butlast (ValidatedTypes tc)\<rparr>"
      let ?f = "typeCheckDecl S ?nominal True"
      let ?st1 = "invoke (FirstPass ?nominal) ?f (?popped, tr)"
      have g: "grows ?popped (?f ?popped)" using ao by (rule grows_typeCheckDecl)
      have ex: "extends (definedFunctions (fst st)) (definedFunctions (fst ?st1))"
        using grows_functions [OF g] st by (simp add: invoke_eq)
      have r1: "drain S ?st1 = Some y" using body False st by (simp add: Let_def)
      obtain new where n: "map fst (snd y) = map fst (snd ?st1) @ new"
        "list_all isFirstPassCall new"
        "extends (definedFunctions (fst ?st1)) (definedFunctions (fst y))"
        using IH [OF r1] ao by blast
      have "map fst (snd y) = map fst (snd st) @ (FirstPass ?nominal # new)"
        using n(1) st by (simp add: invoke_eq)
      moreover have "list_all isFirstPassCall (FirstPass ?nominal # new)" using n(2) by simp
      ultimately show ?thesis using extends_trans [OF ex n(3)] by blast
    qed
  qed
qed

text \<open>
  The order inside one iteration: calls on external definitions, then the body
  checks of the functions at the indices from \<open>prev\<close> up to \<open>cur\<close>, then
  \<open>computeCaptures\<close> on the same functions in decreasing index order, then first
  passes.
\<close>

lemma schedulerIteration_capture_order:
  assumes it: "schedulerIteration S cf ce st = Some (Inr (cf', ce', tc', tr'))"
    and ao: "appendOnly S" and cf: "cf \<le> length (definedFunctions (fst st))"
  shows "\<exists>ext passes.
           map fst tr' =
             map fst (snd st) @ ext @
             map CheckBody (drop cf (take cf' (definedFunctions tc'))) @
             map ComputeCaptures (rev (drop cf (take cf' (definedFunctions tc')))) @
             passes \<and>
           list_all isExternalCall ext \<and> list_all isFirstPassCall passes \<and>
           cf \<le> cf' \<and> cf' \<le> length (definedFunctions tc')"
proof -
  let ?nE = "length (ExternalDefinitions (Context (fst st)))"
  obtain ce1 st1 where e: "drainExternalDefinitions S ?nE ce st = Inr (ce1, st1)"
    using it unfolding schedulerIteration_def
    by (cases "drainExternalDefinitions S ?nE ce st") auto
  obtain ext where x: "map fst (snd st1) = map fst (snd st) @ ext" "list_all isExternalCall ext"
    and x1: "extends (definedFunctions (fst st)) (definedFunctions (fst st1))"
    using drainExternalDefinitions_trace [OF e ao] by blast
  let ?DF1 = "definedFunctions (fst st1)"
  let ?n = "length ?DF1"
  have cfn: "cf \<le> ?n" using cf extends_length [OF x1] by simp
  obtain cf2 st2 where f: "drainDefinedFunctions S ?n cf st1 = Inr (cf2, st2)"
    using it e unfolding schedulerIteration_def
    by (cases "drainDefinedFunctions S ?n cf st1") (auto simp: Let_def)
  have b: "cf2 = ?n"
    "map fst (snd st2) = map fst (snd st1) @ map CheckBody (drop cf (take ?n ?DF1))"
    and x2: "extends ?DF1 (definedFunctions (fst st2))"
    using drainDefinedFunctions_trace [OF f ao _ cfn] by simp_all
  let ?DF2 = "definedFunctions (fst st2)"
  have n2: "?n \<le> length ?DF2" using extends_length [OF x2] .
  obtain st3 where c: "computeCapturesLoop S cf cf2 st2 = Inr st3"
    using it e f unfolding schedulerIteration_def
    by (cases "computeCapturesLoop S cf cf2 st2") (auto simp: Let_def)
  have k: "map fst (snd st3) =
      map fst (snd st2) @ map ComputeCaptures (rev (drop cf (take ?n ?DF2)))"
    and x3: "extends ?DF2 (definedFunctions (fst st3))"
    using computeCapturesLoop_trace [OF c ao] b(1) n2 by simp_all
  obtain st4 where v: "drainValidatedTypes S st3 = Some st4"
    using it e f c unfolding schedulerIteration_def
    by (cases "drainValidatedTypes S st3") (auto simp: Let_def)
  obtain passes where p: "map fst (snd st4) = map fst (snd st3) @ passes"
    "list_all isFirstPassCall passes"
    and x4: "extends (definedFunctions (fst st3)) (definedFunctions (fst st4))"
    using drainValidatedTypes_trace [OF v] ao by blast
  have res: "cf' = cf2" "tc' = insertImplicitlyDefinedFunctions (fst st4)" "tr' = snd st4"
    using it e f c v unfolding schedulerIteration_def by (simp_all add: Let_def)
  have x5: "extends (definedFunctions (fst st4)) (definedFunctions tc')"
    unfolding res(2) by (simp add: insertImplicitlyDefinedFunctions_def extends_def)
  have x25: "extends ?DF2 (definedFunctions tc')"
    using extends_trans [OF x3 extends_trans [OF x4 x5]] .
  have x15: "extends ?DF1 (definedFunctions tc')" using extends_trans [OF x2 x25] .
  have t1: "take ?n (definedFunctions tc') = take ?n ?DF1"
    using extends_take [OF x15] by simp
  have t2: "take ?n ?DF2 = take ?n ?DF1" using extends_take [OF x2] by simp
  have le: "cf' \<le> length (definedFunctions tc')"
    using res(1) b(1) extends_length [OF x15] by simp
  have "map fst tr' =
      map fst (snd st) @ ext @
      map CheckBody (drop cf (take cf' (definedFunctions tc'))) @
      map ComputeCaptures (rev (drop cf (take cf' (definedFunctions tc')))) @ passes"
    unfolding res(1,3) b(1) t1 using p(1) k b(2) x(1) t2 by simp
  then show ?thesis using x(2) p(2) cfn b(1) res(1) le by blast
qed

lemma schedInv_start:
  assumes "LastCheckedExternalDefinition (Context tc) \<le> length (ExternalDefinitions (Context tc))"
  shows "schedInv tc 0 (LastCheckedExternalDefinition (Context tc)) (tc, [])"
  using assms
  by (intro schedInvI)
     (simp_all add: checkedBodies_def processedExternals_def firstPassed_def pushedTypes_def
        appendedFunctions_def stagedFunctions_def appendedExternals_def)

text \<open>
  With collaborators that only append, no vector is ever indexed past its end: the
  only fatal outcome of the scheduler is the unreachable branch for an external
  definition that is neither a function nor a nominal type.
\<close>

lemma drainExternalDefinitions_fatal:
  "drainExternalDefinitions S n ce st = Inl fatal \<Longrightarrow> appendOnly S \<Longrightarrow> ce \<le> n \<Longrightarrow>
   n \<le> length (ExternalDefinitions (Context (fst st))) \<Longrightarrow> fatal = Unreachable"
proof (induction S n ce st rule: drainExternalDefinitions.induct)
  case (1 S n ce st)
  note ao = "1.prems"(2)
  obtain tc tr where st: "st = (tc, tr)" by (cases st)
  show ?case
  proof (cases "ce = n")
    case True
    then show ?thesis using "1.prems"(1) by simp
  next
    case False
    have ib: "\<not> (n < ce \<or> length (ExternalDefinitions (Context (fst st))) \<le> ce)"
      using "1.prems"(3,4) False by simp
    show ?thesis
    proof (cases "ExternalDefinitions (Context (fst st)) ! ce")
      case (AbstractFunctionDecl AFD)
      let ?f = "typeCheckAbstractFunctionBody S AFD"
      let ?st1 = "invoke (CheckExternalBody AFD) ?f st"
      have g: "grows tc (?f tc)" using ao by (rule grows_typeCheckAbstractFunctionBody)
      have n1: "n \<le> length (ExternalDefinitions (Context (fst ?st1)))"
        using "1.prems"(4) grows_external_length [OF g] st by (simp add: invoke_eq)
      have r1: "drainExternalDefinitions S n (ce + 1) ?st1 = Inl fatal"
        using "1.prems"(1) False ib AbstractFunctionDecl by simp
      have "ce + 1 \<le> n" using "1.prems"(3) False by simp
      then show ?thesis
        using "1.IH"(1) [OF False ib AbstractFunctionDecl r1 ao _ n1] by simp
    next
      case (NominalDecl decl)
      let ?f = "handleExternalDecl S decl"
      let ?st1 = "invoke (HandleExternalDecl decl) ?f st"
      have g: "grows tc (?f tc)" using ao by (rule grows_handleExternalDecl)
      have n1: "n \<le> length (ExternalDefinitions (Context (fst ?st1)))"
        using "1.prems"(4) grows_external_length [OF g] st by (simp add: invoke_eq)
      have r1: "drainExternalDefinitions S n (ce + 1) ?st1 = Inl fatal"
        using "1.prems"(1) False ib NominalDecl by simp
      have "ce + 1 \<le> n" using "1.prems"(3) False by simp
      then show ?thesis
        using "1.IH"(2) [OF False ib NominalDecl r1 ao _ n1] by simp
    next
      case (OtherDecl decl)
      then show ?thesis using "1.prems"(1) False ib by simp
    qed
  qed
qed

lemma drainDefinedFunctions_no_fatal:
  "appendOnly S \<Longrightarrow> cf \<le> n \<Longrightarrow> n \<le> length (definedFunctions (fst st)) \<Longrightarrow>
   drainDefinedFunctions S n cf st \<noteq> Inl fatal"
proof (induction S n cf st rule: drainDefinedFunctions.induct)
  case (1 S n cf st)
  note ao = "1.prems"(1)
  obtain tc tr where st: "st = (tc, tr)" by (cases st)
  show ?case
  proof (cases "cf = n")
    case True
    then show ?thesis by simp
  next
    case False
    have ib: "\<not> (n < cf \<or> length (definedFunctions (fst st)) \<le> cf)"
      using "1.prems"(2,3) False by simp
    let ?AFD = "definedFunctions (fst st) ! cf"
    let ?f = "typeCheckAbstractFunctionBody S ?AFD"
    let ?st1 = "invoke (CheckBody ?AFD) ?f st"
    have g: "grows tc (?f tc)" using ao by (rule grows_typeCheckAbstractFunctionBody)
    have n1: "n \<le> length (definedFunctions (fst ?st1))"
      using "1.prems"(3) grows_functions_length [OF g] st by (simp add: invoke_eq)
    have "cf + 1 \<le> n" using "1.prems"(2) False by simp
    then have "drainDefinedFunctions S n (cf + 1) ?st1 \<noteq> Inl fatal"
      using "1.IH" [OF False ib refl ao _ n1] by simp
    then show ?thesis using False ib by (simp add: Let_def)
  qed
qed

lemma computeCapturesLoop_no_fatal:
  "appendOnly S \<Longrightarrow> i \<le> length (definedFunctions (fst st)) \<Longrightarrow>
   computeCapturesLoop S prev i st \<noteq> Inl fatal"
proof (induction S prev i st rule: computeCapturesLoop.induct)
  case (1 S prev i st)
  note ao = "1.prems"(1)
  obtain tc tr where st: "st = (tc, tr)" by (cases st)
  show ?case
  proof (cases "i > prev")
    case False
    then show ?thesis by simp
  next
    case True
    have ib: "\<not> length (definedFunctions (fst st)) \<le> i - 1"
      using "1.prems"(2) True by simp
    let ?FD = "definedFunctions (fst st) ! (i - 1)"
    let ?f = "computeCaptures S ?FD"
    let ?st1 = "invoke (ComputeCaptures ?FD) ?f st"
    have g: "grows tc (?f tc)" using ao by (rule grows_computeCaptures)
    have n1: "i - 1 \<le> length (definedFunctions (fst ?st1))"
      using "1.prems"(2) grows_functions_length [OF g] st by (simp add: invoke_eq)
    have "computeCapturesLoop S prev (i - 1) ?st1 \<noteq> Inl fatal"
      using "1.IH" [OF True ib refl ao n1] .
    then show ?thesis using True ib by (simp add: Let_def)
  qed
qed

lemma schedulerIteration_fatal:
  assumes it: "schedulerIteration S cf ce st = Some (Inl fatal)"
    and ao: "appendOnly S" and inv: "schedInv tc0 cf ce st"
  shows "fatal = Unreachable"
proof -
  obtain tc tr where st: "st = (tc, tr)" by (cases st)
  let ?nE = "length (ExternalDefinitions (Context (fst st)))"
  have ce: "ce \<le> ?nE" using schedInvD(4) [of tc0 cf ce tc tr] inv st by simp
  show ?thesis
  proof (cases "drainExternalDefinitions S ?nE ce st")
    case (Inl f)
    then have "f = Unreachable" using drainExternalDefinitions_fatal [OF _ ao ce] by simp
    then show ?thesis using it Inl unfolding schedulerIteration_def by simp
  next
    case (Inr r)
    obtain ce1 st1 where r: "r = (ce1, st1)" by (cases r)
    have e: "drainExternalDefinitions S ?nE ce st = Inr (ce1, st1)" using Inr r by simp
    have i1: "schedInv tc0 cf ce1 st1"
      using drainExternalDefinitions_inv [OF inv _ e ao] by simp
    obtain tc1 tr1 where st1: "st1 = (tc1, tr1)" by (cases st1)
    let ?nF = "length (definedFunctions (fst st1))"
    have cfn: "cf \<le> ?nF" using schedInvD(1) [of tc0 cf ce1 tc1 tr1] i1 st1 by simp
    show ?thesis
    proof (cases "drainDefinedFunctions S ?nF cf st1")
      case (Inl f)
      then show ?thesis using drainDefinedFunctions_no_fatal [OF ao cfn, of st1 f] by simp
    next
      case (Inr r2)
      obtain cf2 st2 where r2: "r2 = (cf2, st2)" by (cases r2)
      have f: "drainDefinedFunctions S ?nF cf st1 = Inr (cf2, st2)" using Inr r2 by simp
      have i2: "cf2 = ?nF" "schedInv tc0 ?nF ce1 st2"
        using drainDefinedFunctions_inv [OF i1 _ f ao] by simp_all
      obtain tc2 tr2 where st2: "st2 = (tc2, tr2)" by (cases st2)
      have le: "cf2 \<le> length (definedFunctions (fst st2))"
        using schedInvD(1) [of tc0 ?nF ce1 tc2 tr2] i2 st2 by simp
      show ?thesis
      proof (cases "computeCapturesLoop S cf cf2 st2")
        case (Inl f)
        then show ?thesis using computeCapturesLoop_no_fatal [OF ao le, of cf f] by simp
      next
        case (Inr st3)
        then show ?thesis
          using it e f unfolding schedulerIteration_def
          by (cases "drainValidatedTypes S st3") (simp_all add: Let_def)
      qed
    qed
  qed
qed

lemma schedulerLoop_fatal:
  assumes r: "schedulerLoop S cf ce st = Some res"
  shows "appendOnly S \<longrightarrow> schedInv tc0 cf ce st \<longrightarrow>
         (\<forall>fatal. res = Inl fatal \<longrightarrow> fatal = Unreachable)"
proof (rule schedulerLoop.raw_induct
    [where P = "\<lambda>S cf ce st res. appendOnly S \<longrightarrow> schedInv tc0 cf ce st \<longrightarrow>
         (\<forall>fatal. res = Inl fatal \<longrightarrow> fatal = Unreachable)", OF _ r])
  fix loop :: "Sema \<Rightarrow> nat \<Rightarrow> nat \<Rightarrow> TypeChecker \<times> Trace \<Rightarrow>
     (Fatal + nat \<times> nat \<times> TypeChecker \<times> Trace) option"
  fix S cf ce st res
  assume IH: "\<And>S cf ce st res. loop S cf ce st = Some res \<Longrightarrow>
         appendOnly S \<longrightarrow> schedInv tc0 cf ce st \<longrightarrow>
         (\<forall>fatal. res = Inl fatal \<longrightarrow> fatal = Unreachable)"
  assume body: "(case schedulerIteration S cf ce st of
        None \<Rightarrow> None
      | Some (Inl fatal) \<Rightarrow> Some (Inl fatal)
      | Some (Inr (currentFunctionIdx', currentExternalDef', tc, trace)) \<Rightarrow>
          if currentFunctionIdx' < length (definedFunctions tc) \<or>
             currentExternalDef' < length (ExternalDefinitions (Context tc))
          then loop S currentFunctionIdx' currentExternalDef' (tc, trace)
          else Some (Inr (currentFunctionIdx', currentExternalDef', tc, trace))) = Some res"
  show "appendOnly S \<longrightarrow> schedInv tc0 cf ce st \<longrightarrow>
         (\<forall>fatal. res = Inl fatal \<longrightarrow> fatal = Unreachable)"
  proof (intro impI allI)
    fix fatal
    assume ao: "appendOnly S" and inv: "schedInv tc0 cf ce st" and res: "res = Inl fatal"
    obtain it where it: "schedulerIteration S cf ce st = Some it"
      using body by (cases "schedulerIteration S cf ce st") auto
    show "fatal = Unreachable"
    proof (cases it)
      case (Inl f)
      then have "f = Unreachable" using schedulerIteration_fatal [OF _ ao inv] it by simp
      then show ?thesis using body it Inl res by simp
    next
      case (Inr q)
      obtain cf2 ce1 tc5 tr5 where q: "q = (cf2, ce1, tc5, tr5)" by (cases q)
      have it': "schedulerIteration S cf ce st = Some (Inr (cf2, ce1, tc5, tr5))"
        using it Inr q by simp
      have i5: "schedInv tc0 cf2 ce1 (tc5, tr5)"
        using schedulerIteration_inv [OF it' ao inv] by simp
      show ?thesis
      proof (cases "cf2 < length (definedFunctions tc5) \<or>
                    ce1 < length (ExternalDefinitions (Context tc5))")
        case True
        then have "loop S cf2 ce1 (tc5, tr5) = Some res" using body it' by simp
        then show ?thesis using IH ao i5 res by blast
      next
        case False
        then show ?thesis using body it' res by simp
      qed
    qed
  qed
qed

lemma scheduler_only_fatal_is_unreachable:
  assumes ao: "appendOnly S"
    and start: "LastCheckedExternalDefinition (Context tc)
                  \<le> length (ExternalDefinitions (Context tc))"
    and ret: "typeCheckFunctionsAndExternalDecls S tc = Some (Inl fatal)"
  shows "fatal = Unreachable"
proof -
  obtain res where loop:
    "schedulerLoop S 0 (LastCheckedExternalDefinition (Context tc)) (tc, []) = Some res"
    using ret unfolding typeCheckFunctionsAndExternalDecls_def by (auto split: option.splits)
  have "res = Inl fatal"
    using ret loop unfolding typeCheckFunctionsAndExternalDecls_def
    by (auto split: sum.splits prod.splits)
  then show ?thesis
    using schedulerLoop_fatal [OF loop, of tc] ao schedInv_start [OF start] by blast
qed

text \<open>
  The record and the state go together: every stretch of a run leaves the state
  that the calls it recorded produce, applied in the recorded order. Nothing is
  asked of the collaborators here.
\<close>

lemma replays_refl: "replays S st st []"
  by (simp add: replays_def)

lemma replays_trans:
  "replays S st st1 a \<Longrightarrow> replays S st1 st2 b \<Longrightarrow> replays S st st2 (a @ b)"
  by (simp add: replays_def)

lemma replays_invoke:
  assumes "replays S (invoke c f st) st' new" and "f (fst st) = perform S c (fst st)"
  shows "replays S st st' (c # new)"
  using assms by (simp add: replays_def invoke_def)

lemma replays_pop:
  assumes "replays S
             (invoke (FirstPass nominal) (typeCheckDecl S nominal True)
                (tc\<lparr>ValidatedTypes := butlast (ValidatedTypes tc)\<rparr>, tr))
             st' new"
  shows "replays S (tc, tr) st' (FirstPass nominal # new)"
  using assms by (simp add: replays_def invoke_def)

lemma drainExternalDefinitions_replay:
  "drainExternalDefinitions S n ce st = Inr (ce', st') \<Longrightarrow> \<exists>new. replays S st st' new"
proof (induction S n ce st rule: drainExternalDefinitions.induct)
  case (1 S n ce st)
  show ?case
  proof (cases "ce = n")
    case True
    then have "st' = st" using "1.prems" by simp
    then show ?thesis using replays_refl by blast
  next
    case False
    have ib: "\<not> (n < ce \<or> length (ExternalDefinitions (Context (fst st))) \<le> ce)"
      using "1.prems" False by (auto split: if_splits)
    show ?thesis
    proof (cases "ExternalDefinitions (Context (fst st)) ! ce")
      case (AbstractFunctionDecl AFD)
      let ?f = "typeCheckAbstractFunctionBody S AFD"
      let ?st1 = "invoke (CheckExternalBody AFD) ?f st"
      have r1: "drainExternalDefinitions S n (ce + 1) ?st1 = Inr (ce', st')"
        using "1.prems" False ib AbstractFunctionDecl by simp
      obtain new where n: "replays S ?st1 st' new"
        using "1.IH"(1) [OF False ib AbstractFunctionDecl r1] by blast
      have "replays S st st' (CheckExternalBody AFD # new)"
        using n by (rule replays_invoke) simp
      then show ?thesis by blast
    next
      case (NominalDecl decl)
      let ?f = "handleExternalDecl S decl"
      let ?st1 = "invoke (HandleExternalDecl decl) ?f st"
      have r1: "drainExternalDefinitions S n (ce + 1) ?st1 = Inr (ce', st')"
        using "1.prems" False ib NominalDecl by simp
      obtain new where n: "replays S ?st1 st' new"
        using "1.IH"(2) [OF False ib NominalDecl r1] by blast
      have "replays S st st' (HandleExternalDecl decl # new)"
        using n by (rule replays_invoke) simp
      then show ?thesis by blast
    next
      case (OtherDecl decl)
      then show ?thesis using "1.prems" False ib by simp
    qed
  qed
qed

lemma drainDefinedFunctions_replay:
  "drainDefinedFunctions S n cf st = Inr (cf', st') \<Longrightarrow> \<exists>new. replays S st st' new"
proof (induction S n cf st rule: drainDefinedFunctions.induct)
  case (1 S n cf st)
  show ?case
  proof (cases "cf = n")
    case True
    then have "st' = st" using "1.prems" by simp
    then show ?thesis using replays_refl by blast
  next
    case False
    have ib: "\<not> (n < cf \<or> length (definedFunctions (fst st)) \<le> cf)"
      using "1.prems" False by (auto split: if_splits)
    let ?AFD = "definedFunctions (fst st) ! cf"
    let ?st1 = "invoke (CheckBody ?AFD) (typeCheckAbstractFunctionBody S ?AFD) st"
    have r1: "drainDefinedFunctions S n (cf + 1) ?st1 = Inr (cf', st')"
      using "1.prems" False ib by (simp add: Let_def)
    obtain new where n: "replays S ?st1 st' new"
      using "1.IH" [OF False ib refl r1] by blast
    have "replays S st st' (CheckBody ?AFD # new)"
      using n by (rule replays_invoke) simp
    then show ?thesis by blast
  qed
qed

lemma computeCapturesLoop_replay:
  "computeCapturesLoop S prev i st = Inr st' \<Longrightarrow> \<exists>new. replays S st st' new"
proof (induction S prev i st rule: computeCapturesLoop.induct)
  case (1 S prev i st)
  show ?case
  proof (cases "i > prev")
    case False
    then have "st' = st" using "1.prems" by simp
    then show ?thesis using replays_refl by blast
  next
    case True
    have ib: "\<not> length (definedFunctions (fst st)) \<le> i - 1"
      using "1.prems" True by (auto split: if_splits)
    let ?FD = "definedFunctions (fst st) ! (i - 1)"
    let ?st1 = "invoke (ComputeCaptures ?FD) (computeCaptures S ?FD) st"
    have r1: "computeCapturesLoop S prev (i - 1) ?st1 = Inr st'"
      using "1.prems" True ib by (simp add: Let_def)
    obtain new where n: "replays S ?st1 st' new"
      using "1.IH" [OF True ib refl r1] by blast
    have "replays S st st' (ComputeCaptures ?FD # new)"
      using n by (rule replays_invoke) simp
    then show ?thesis by blast
  qed
qed

lemma drainValidatedTypes_replay:
  assumes r: "drainValidatedTypes S st = Some st'"
  shows "\<exists>new. replays S st st' new"
proof (rule drainValidatedTypes.raw_induct
    [where P = "\<lambda>S st st'. \<exists>new. replays S st st' new", OF _ r])
  fix drain :: "Sema \<Rightarrow> TypeChecker \<times> Trace \<Rightarrow> (TypeChecker \<times> Trace) option"
  fix S st y
  assume IH: "\<And>S st y. drain S st = Some y \<Longrightarrow> \<exists>new. replays S st y new"
  assume body: "(if ValidatedTypes (fst st) \<noteq> [] then
        (let nominal = last (ValidatedTypes (fst st));
             popped = (fst st)\<lparr>ValidatedTypes := butlast (ValidatedTypes (fst st))\<rparr>
         in drain S
              (invoke (FirstPass nominal) (typeCheckDecl S nominal True) (popped, snd st)))
      else Some st) = Some y"
  obtain tc tr where st: "st = (tc, tr)" by (cases st)
  show "\<exists>new. replays S st y new"
  proof (cases "ValidatedTypes tc = []")
    case True
    then have "y = st" using body st by simp
    then show ?thesis using replays_refl by blast
  next
    case False
    let ?nominal = "last (ValidatedTypes tc)"
    let ?popped = "tc\<lparr>ValidatedTypes := butlast (ValidatedTypes tc)\<rparr>"
    let ?st1 = "invoke (FirstPass ?nominal) (typeCheckDecl S ?nominal True) (?popped, tr)"
    have r1: "drain S ?st1 = Some y" using body False st by (simp add: Let_def)
    obtain new where n: "replays S ?st1 y new" using IH [OF r1] by blast
    have "replays S (tc, tr) y (FirstPass ?nominal # new)"
      using n by (rule replays_pop)
    then show ?thesis using st by blast
  qed
qed

lemma schedulerIteration_replay:
  assumes it: "schedulerIteration S cf ce st = Some (Inr (cf', ce', tc', tr'))"
  shows "\<exists>calls. map fst tr' = map fst (snd st) @ calls \<and>
                 tc' = replayIteration S calls (fst st)"
proof -
  let ?nE = "length (ExternalDefinitions (Context (fst st)))"
  obtain ce1 st1 where e: "drainExternalDefinitions S ?nE ce st = Inr (ce1, st1)"
    using it unfolding schedulerIteration_def
    by (cases "drainExternalDefinitions S ?nE ce st") auto
  let ?nF = "length (definedFunctions (fst st1))"
  obtain cf2 st2 where f: "drainDefinedFunctions S ?nF cf st1 = Inr (cf2, st2)"
    using it e unfolding schedulerIteration_def
    by (cases "drainDefinedFunctions S ?nF cf st1") (auto simp: Let_def)
  obtain st3 where c: "computeCapturesLoop S cf cf2 st2 = Inr st3"
    using it e f unfolding schedulerIteration_def
    by (cases "computeCapturesLoop S cf cf2 st2") (auto simp: Let_def)
  obtain st4 where v: "drainValidatedTypes S st3 = Some st4"
    using it e f c unfolding schedulerIteration_def
    by (cases "drainValidatedTypes S st3") (auto simp: Let_def)
  obtain a where a: "replays S st st1 a" using drainExternalDefinitions_replay [OF e] by blast
  obtain b where b: "replays S st1 st2 b" using drainDefinedFunctions_replay [OF f] by blast
  obtain k where k: "replays S st2 st3 k" using computeCapturesLoop_replay [OF c] by blast
  obtain p where p: "replays S st3 st4 p" using drainValidatedTypes_replay [OF v] by blast
  have all: "replays S st st4 (a @ b @ k @ p)"
    using replays_trans [OF a replays_trans [OF b replays_trans [OF k p]]] .
  have res: "tc' = insertImplicitlyDefinedFunctions (fst st4)" "tr' = snd st4"
    using it e f c v unfolding schedulerIteration_def by (simp_all add: Let_def)
  have "map fst tr' = map fst (snd st) @ (a @ b @ k @ p)"
    using all res(2) unfolding replays_def by blast
  moreover have "tc' = replayIteration S (a @ b @ k @ p) (fst st)"
    using all res(1) unfolding replays_def replayIteration_def by simp
  ultimately show ?thesis by blast
qed

lemma schedulerLoop_replay:
  assumes r: "schedulerLoop S cf ce st = Some res"
  shows "\<forall>cf' ce' tc' tr'. res = Inr (cf', ce', tc', tr') \<longrightarrow>
           (\<exists>its. its \<noteq> [] \<and> map fst tr' = map fst (snd st) @ concat its \<and>
                  tc' = replay S its (fst st))"
proof (rule schedulerLoop.raw_induct
    [where P = "\<lambda>S cf ce st res. \<forall>cf' ce' tc' tr'. res = Inr (cf', ce', tc', tr') \<longrightarrow>
           (\<exists>its. its \<noteq> [] \<and> map fst tr' = map fst (snd st) @ concat its \<and>
                  tc' = replay S its (fst st))", OF _ r])
  fix loop :: "Sema \<Rightarrow> nat \<Rightarrow> nat \<Rightarrow> TypeChecker \<times> Trace \<Rightarrow>
     (Fatal + nat \<times> nat \<times> TypeChecker \<times> Trace) option"
  fix S cf ce st res
  assume IH: "\<And>S cf ce st res. loop S cf ce st = Some res \<Longrightarrow>
         \<forall>cf' ce' tc' tr'. res = Inr (cf', ce', tc', tr') \<longrightarrow>
           (\<exists>its. its \<noteq> [] \<and> map fst tr' = map fst (snd st) @ concat its \<and>
                  tc' = replay S its (fst st))"
  assume body: "(case schedulerIteration S cf ce st of
        None \<Rightarrow> None
      | Some (Inl fatal) \<Rightarrow> Some (Inl fatal)
      | Some (Inr (currentFunctionIdx', currentExternalDef', tc, trace)) \<Rightarrow>
          if currentFunctionIdx' < length (definedFunctions tc) \<or>
             currentExternalDef' < length (ExternalDefinitions (Context tc))
          then loop S currentFunctionIdx' currentExternalDef' (tc, trace)
          else Some (Inr (currentFunctionIdx', currentExternalDef', tc, trace))) = Some res"
  show "\<forall>cf' ce' tc' tr'. res = Inr (cf', ce', tc', tr') \<longrightarrow>
           (\<exists>its. its \<noteq> [] \<and> map fst tr' = map fst (snd st) @ concat its \<and>
                  tc' = replay S its (fst st))"
  proof (intro allI impI)
    fix cf' ce' tc' tr'
    assume res: "res = Inr (cf', ce', tc', tr')"
    obtain cf2 ce1 tc5 tr5 where
      it: "schedulerIteration S cf ce st = Some (Inr (cf2, ce1, tc5, tr5))"
      using body res
      by (cases "schedulerIteration S cf ce st") (auto split: sum.splits)
    obtain calls where c: "map fst tr5 = map fst (snd st) @ calls"
      "tc5 = replayIteration S calls (fst st)"
      using schedulerIteration_replay [OF it] by blast
    show "\<exists>its. its \<noteq> [] \<and> map fst tr' = map fst (snd st) @ concat its \<and>
                tc' = replay S its (fst st)"
    proof (cases "cf2 < length (definedFunctions tc5) \<or>
                  ce1 < length (ExternalDefinitions (Context tc5))")
      case True
      then have lp: "loop S cf2 ce1 (tc5, tr5) = Some res" using body it by simp
      note ih = IH [OF lp, rule_format, OF res]
      obtain its where i: "map fst tr' = map fst tr5 @ concat its"
        "tc' = replay S its tc5"
        using ih unfolding fst_conv snd_conv by blast
      have "calls # its \<noteq> []" by simp
      moreover have "map fst tr' = map fst (snd st) @ concat (calls # its)"
        using i(1) c(1) by simp
      moreover have "tc' = replay S (calls # its) (fst st)"
        using i(2) c(2) by (simp add: replay_def)
      ultimately show ?thesis by blast
    next
      case False
      then have "res = Inr (cf2, ce1, tc5, tr5)" using body it by simp
      then have eq: "tc' = tc5" "tr' = tr5" using res by simp_all
      have "[calls] \<noteq> []" by simp
      moreover have "map fst tr' = map fst (snd st) @ concat [calls]"
        using eq(2) c(1) by simp
      moreover have "tc' = replay S [calls] (fst st)"
        using eq(1) c(2) by (simp add: replay_def)
      ultimately show ?thesis by blast
    qed
  qed
qed

text \<open>
  C1. With collaborators that only append to the collections, and a starting
  external cursor within the external definitions: when
  \<open>typeCheckFunctionsAndExternalDecls\<close> returns, the stored external cursor is the
  length of the external definitions, the function cursor is the length of the
  defined functions, the stack of types to validate and the staging buffer are
  empty; the bodies checked are the final defined functions, each index once and in
  order; the external definitions handled are those from the starting cursor on,
  each once and in order; the types given their first pass are, as a multiset, the
  initial stack and everything pushed; the final defined functions are the
  initial ones, the initially staged ones and everything appended or staged during
  the run; and the final state is the state these calls make: the recorded calls
  fall into one or more iterations, and applying to the initial state the
  collaborators of each iteration in the recorded order, with the staged functions
  inserted at its end, and then storing the cursor, gives the state returned.
\<close>

theorem C1_scheduler_fixed_point:
  assumes ao: "appendOnly S"
    and start: "LastCheckedExternalDefinition (Context tc)
                  \<le> length (ExternalDefinitions (Context tc))"
    and ret: "typeCheckFunctionsAndExternalDecls S tc = Some (Inr (currentFunctionIdx, tc', trace))"
  shows "LastCheckedExternalDefinition (Context tc') = length (ExternalDefinitions (Context tc'))
       \<and> currentFunctionIdx = length (definedFunctions tc')
       \<and> ValidatedTypes tc' = [] \<and> implicitlyDefinedFunctions tc' = []
       \<and> checkedBodies trace = definedFunctions tc'
       \<and> processedExternals trace =
           drop (LastCheckedExternalDefinition (Context tc)) (ExternalDefinitions (Context tc'))
       \<and> mset (firstPassed trace) = mset (ValidatedTypes tc) + mset (pushedTypes trace)
       \<and> mset (definedFunctions tc') =
           mset (definedFunctions tc) + mset (implicitlyDefinedFunctions tc) +
           mset (appendedFunctions trace) + mset (stagedFunctions trace)
       \<and> mset (ExternalDefinitions (Context tc')) =
           mset (ExternalDefinitions (Context tc)) + mset (appendedExternals trace)
       \<and> (\<exists>iterations. iterations \<noteq> [] \<and> concat iterations = map fst trace \<and>
             tc' = storeLastChecked (replay S iterations tc))"
proof -
  let ?L0 = "LastCheckedExternalDefinition (Context tc)"
  obtain res where loop: "schedulerLoop S 0 ?L0 (tc, []) = Some res"
    using ret unfolding typeCheckFunctionsAndExternalDecls_def by (auto split: option.splits)
  obtain ce t5 where res: "res = Inr (currentFunctionIdx, ce, t5, trace)"
    and tc': "tc' = t5\<lparr>Context := (Context t5)\<lparr>LastCheckedExternalDefinition := ce\<rparr>\<rparr>"
    using ret loop unfolding typeCheckFunctionsAndExternalDecls_def
    by (auto split: sum.splits prod.splits)
  have "schedInv tc currentFunctionIdx ce (t5, trace) \<and> drained currentFunctionIdx ce t5"
    using schedulerLoop_inv [OF loop, of tc] ao schedInv_start [OF start] res by blast
  then have inv: "schedInv tc currentFunctionIdx ce (t5, trace)"
    and dr: "drained currentFunctionIdx ce t5" by simp_all
  note d = schedInvD [OF inv]
  have q: "currentFunctionIdx = length (definedFunctions t5)"
    "ce = length (ExternalDefinitions (Context t5))"
    "ValidatedTypes t5 = []" "implicitlyDefinedFunctions t5 = []"
    using dr by (simp_all add: drained_def)
  have f: "definedFunctions tc' = definedFunctions t5"
    "ExternalDefinitions (Context tc') = ExternalDefinitions (Context t5)"
    "ValidatedTypes tc' = ValidatedTypes t5"
    "implicitlyDefinedFunctions tc' = implicitlyDefinedFunctions t5"
    "LastCheckedExternalDefinition (Context tc') = ce"
    using tc' by simp_all
  have 1: "LastCheckedExternalDefinition (Context tc') = length (ExternalDefinitions (Context tc'))"
    using f q by simp
  have 2: "currentFunctionIdx = length (definedFunctions tc')" using f q by simp
  have 3: "ValidatedTypes tc' = []" "implicitlyDefinedFunctions tc' = []" using f q by simp_all
  have 4: "checkedBodies trace = definedFunctions tc'" using d(2) q(1) f(1) by simp
  have 5: "processedExternals trace = drop ?L0 (ExternalDefinitions (Context tc'))"
    using d(5) q(2) f(2) by simp
  have 6: "mset (firstPassed trace) = mset (ValidatedTypes tc) + mset (pushedTypes trace)"
    using d(6) q(3) by simp
  have 7: "mset (definedFunctions tc') =
           mset (definedFunctions tc) + mset (implicitlyDefinedFunctions tc) +
           mset (appendedFunctions trace) + mset (stagedFunctions trace)"
    using d(7) q(4) f(1) by simp
  have 8: "mset (ExternalDefinitions (Context tc')) =
           mset (ExternalDefinitions (Context tc)) + mset (appendedExternals trace)"
    using d(8) f(2) by simp
  note rp = schedulerLoop_replay [OF loop, rule_format, OF res]
  obtain its where i: "its \<noteq> []" "map fst trace = concat its" "t5 = replay S its tc"
    using rp unfolding fst_conv snd_conv by auto
  have s5: "tc' = storeLastChecked t5" unfolding tc' q(2) storeLastChecked_def ..
  have 9: "\<exists>iterations. iterations \<noteq> [] \<and> concat iterations = map fst trace \<and>
             tc' = storeLastChecked (replay S iterations tc)"
  proof (intro exI [of _ its] conjI)
    show "its \<noteq> []" by (rule i(1))
    show "concat its = map fst trace" using i(2) by simp
    show "tc' = storeLastChecked (replay S its tc)" using s5 i(3) by simp
  qed
  show ?thesis using 1 2 3 4 5 6 7 8 9 by blast
qed

lemma appendOnly_busySema: "appendOnly busySema"
  by (simp add: appendOnly_def busySema_def grows_def extends_def diagnose_def)

text \<open>
  The run of \<open>busySema\<close> on one queued function takes four iterations. Every
  collaborator call has left its diagnostic in the final state, in the order of
  the calls, and the final state is the replay of the four iterations.
\<close>

lemma busy_run:
  "\<exists>tc' trace.
     typeCheckFunctionsAndExternalDecls busySema oneFunction = Some (Inr (4, tc', trace)) \<and>
     definedFunctions tc' = [1, 2, 4, 3] \<and>
     ExternalDefinitions (Context tc') = [AbstractFunctionDecl 5, NominalDecl 6] \<and>
     map fst trace =
       [CheckBody 1, ComputeCaptures 1, FirstPass 7, FirstPass 8, CheckBody 2, CheckBody 4,
        ComputeCaptures 4, ComputeCaptures 2, CheckExternalBody 5, HandleExternalDecl 6,
        CheckBody 3, ComputeCaptures 3] \<and>
     Diags tc' = map other_diagnostic [1, 11, 7, 8, 2, 4, 14, 12, 5, 6, 3, 13] \<and>
     tc' = storeLastChecked (replay busySema
       [[CheckBody 1, ComputeCaptures 1, FirstPass 7, FirstPass 8],
        [CheckBody 2, CheckBody 4, ComputeCaptures 4, ComputeCaptures 2],
        [CheckExternalBody 5, HandleExternalDecl 6],
        [CheckBody 3, ComputeCaptures 3]] oneFunction)"
  by (simp add: scheduler_defs busySema_def diagnose_def storeLastChecked_def replay_def
      replayIteration_def)

theorem C1_scheduler_fixed_point_witness:
  "appendOnly busySema \<and>
   LastCheckedExternalDefinition (Context oneFunction)
     \<le> length (ExternalDefinitions (Context oneFunction)) \<and>
   (\<exists>tc' trace.
      typeCheckFunctionsAndExternalDecls busySema oneFunction = Some (Inr (4, tc', trace)) \<and>
      definedFunctions tc' = [1, 2, 4, 3] \<and>
      ExternalDefinitions (Context tc') = [AbstractFunctionDecl 5, NominalDecl 6] \<and>
      LastCheckedExternalDefinition (Context tc') = 2 \<and>
      ValidatedTypes tc' = [] \<and> implicitlyDefinedFunctions tc' = [] \<and>
      checkedBodies trace = [1, 2, 4, 3] \<and>
      processedExternals trace = [AbstractFunctionDecl 5, NominalDecl 6] \<and>
      mset (firstPassed trace) = mset (pushedTypes trace) \<and>
      mset [1, 2, 4, 3] = mset [1] + mset (appendedFunctions trace) + mset (stagedFunctions trace) \<and>
      Diags tc' = map other_diagnostic [1, 11, 7, 8, 2, 4, 14, 12, 5, 6, 3, 13] \<and>
      tc' = storeLastChecked (replay busySema
        [[CheckBody 1, ComputeCaptures 1, FirstPass 7, FirstPass 8],
         [CheckBody 2, CheckBody 4, ComputeCaptures 4, ComputeCaptures 2],
         [CheckExternalBody 5, HandleExternalDecl 6],
         [CheckBody 3, ComputeCaptures 3]] oneFunction) \<and>
      (\<exists>iterations. iterations \<noteq> [] \<and> concat iterations = map fst trace \<and>
         tc' = storeLastChecked (replay busySema iterations oneFunction)))"
proof -
  have start: "LastCheckedExternalDefinition (Context oneFunction)
     \<le> length (ExternalDefinitions (Context oneFunction))"
    by (simp add: oneFunction_def emptyTC_def emptyContext_def)
  have z: "LastCheckedExternalDefinition (Context oneFunction) = 0"
    "ValidatedTypes oneFunction = []" "implicitlyDefinedFunctions oneFunction = []"
    "definedFunctions oneFunction = [1]"
    by (simp_all add: oneFunction_def emptyTC_def emptyContext_def)
  obtain tc' trace where
    r: "typeCheckFunctionsAndExternalDecls busySema oneFunction = Some (Inr (4, tc', trace))"
    and e: "definedFunctions tc' = [1, 2, 4, 3]"
      "ExternalDefinitions (Context tc') = [AbstractFunctionDecl 5, NominalDecl 6]"
      "Diags tc' = map other_diagnostic [1, 11, 7, 8, 2, 4, 14, 12, 5, 6, 3, 13]"
      "tc' = storeLastChecked (replay busySema
        [[CheckBody 1, ComputeCaptures 1, FirstPass 7, FirstPass 8],
         [CheckBody 2, CheckBody 4, ComputeCaptures 4, ComputeCaptures 2],
         [CheckExternalBody 5, HandleExternalDecl 6],
         [CheckBody 3, ComputeCaptures 3]] oneFunction)"
    using busy_run by blast
  note t = C1_scheduler_fixed_point [OF appendOnly_busySema start r]
  note t1 = t [THEN conjunct1]
  note t3 = t [THEN conjunct2, THEN conjunct2, THEN conjunct1]
  note t4 = t [THEN conjunct2, THEN conjunct2, THEN conjunct2, THEN conjunct1]
  note t5 = t [THEN conjunct2, THEN conjunct2, THEN conjunct2, THEN conjunct2, THEN conjunct1]
  note t6 = t [THEN conjunct2, THEN conjunct2, THEN conjunct2, THEN conjunct2, THEN conjunct2,
      THEN conjunct1]
  note t7 = t [THEN conjunct2, THEN conjunct2, THEN conjunct2, THEN conjunct2, THEN conjunct2,
      THEN conjunct2, THEN conjunct1]
  note t8 = t [THEN conjunct2, THEN conjunct2, THEN conjunct2, THEN conjunct2, THEN conjunct2,
      THEN conjunct2, THEN conjunct2, THEN conjunct1]
  note t10 = t [THEN conjunct2, THEN conjunct2, THEN conjunct2, THEN conjunct2, THEN conjunct2,
      THEN conjunct2, THEN conjunct2, THEN conjunct2, THEN conjunct2]
  have h4: "LastCheckedExternalDefinition (Context tc') = 2" using t1 e(2) by simp
  have h7: "checkedBodies trace = [1, 2, 4, 3]" using t5 e(1) by simp
  have h8: "processedExternals trace = [AbstractFunctionDecl 5, NominalDecl 6]"
    using t6 e(2) z(1) by simp
  have h9: "mset (firstPassed trace) = mset (pushedTypes trace)" using t7 z(2) by simp
  have h10: "mset [1, 2, 4, 3] =
      mset [1] + mset (appendedFunctions trace) + mset (stagedFunctions trace)"
    using t8 unfolding e(1) z(3) z(4) by simp
  show ?thesis
    using appendOnly_busySema start r e(1) e(2) h4 t3 t4 h7 h8 h9 h10 e(3) e(4) t10 by blast
qed

lemma appendOnly_nestedSema: "appendOnly nestedSema"
  by (simp add: appendOnly_def nestedSema_def grows_def extends_def)

text \<open>
  C2, on the nested chain. Function 1 is queued; checking its body appends its
  nested function 2, and checking the body of 2 appends its nested function 3. The
  bound of the function loop is taken before the bodies are checked, so each
  iteration checks one function and computes its captures: the captures are
  computed for 1, then 2, then 3, the enclosing function first.
\<close>

theorem C2_nested_functions_capture_order:
  "appendOnly nestedSema \<and>
   (\<exists>tc' trace.
      typeCheckFunctionsAndExternalDecls nestedSema oneFunction = Some (Inr (3, tc', trace)) \<and>
      definedFunctions tc' = [1, 2, 3] \<and>
      map fst trace =
        [CheckBody 1, ComputeCaptures 1, CheckBody 2, ComputeCaptures 2,
         CheckBody 3, ComputeCaptures 3] \<and>
      capturesComputed trace = [1, 2, 3])"
  using appendOnly_nestedSema
  by (simp add: scheduler_defs nestedSema_def capturesComputed_def)

end
